theory Spec2Isabelle
  imports Complex_Main
begin

section \<open>Python values and exceptions\<close>

text \<open>
  Exceptions of the Python source are values. Each constructor is a Python exception
  class and carries the message the interpreter or the source attaches to it.
\<close>

datatype error =
    RuntimeError string
  | ValueError string
  | TypeError string
  | IndexError string
  | KeyError string
  | AttributeError string
  | ZeroDivisionError string
  | OSError string
  | ParseError string

text \<open>Running a fallible step over a list stops at the first exception.\<close>

fun mapM :: "('a \<Rightarrow> error + 'b) \<Rightarrow> 'a list \<Rightarrow> error + 'b list" where
  "mapM f [] = Inr []"
| "mapM f (x # xs) =
     (case f x of
        Inl e \<Rightarrow> Inl e
      | Inr y \<Rightarrow> (case mapM f xs of Inl e \<Rightarrow> Inl e | Inr ys \<Rightarrow> Inr (y # ys)))"

fun foldM :: "('s \<Rightarrow> 'a \<Rightarrow> error + 's) \<Rightarrow> 's \<Rightarrow> 'a list \<Rightarrow> error + 's" where
  "foldM f s [] = Inr s"
| "foldM f s (x # xs) = (case f s x of Inl e \<Rightarrow> Inl e | Inr s' \<Rightarrow> foldM f s' xs)"

section \<open>Strings (data\_book\_hotel.py)\<close>

text \<open>
  A Python \<open>str\<close> is modelled as a \<open>string\<close> of ASCII characters. \<open>str.lower\<close> and the
  regular expression class \<open>\w\<close> are modelled on ASCII: a character outside ASCII is
  left unchanged by \<open>lower\<close> and is not a word character.
\<close>

definition lower_char :: "char \<Rightarrow> char" where
  "lower_char c =
     (let n = (of_char c :: nat) in if 65 \<le> n \<and> n \<le> 90 then char_of (n + 32) else c)"

definition lower :: "string \<Rightarrow> string" where
  "lower s = map lower_char s"

text \<open>\<open>sep.join(parts)\<close>\<close>

fun join :: "string \<Rightarrow> string list \<Rightarrow> string" where
  "join sep [] = []"
| "join sep [x] = x"
| "join sep (x # y # ys) = x @ sep @ join sep (y # ys)"

text \<open>
  \<open>s.find(sub, start)\<close> for \<open>start \<ge> 0\<close>: the lowest index \<open>i \<ge> start\<close> at which \<open>sub\<close>
  occurs in \<open>s\<close>; \<open>None\<close> stands for Python's \<open>-1\<close>.
\<close>

definition occurs_at :: "string \<Rightarrow> string \<Rightarrow> nat \<Rightarrow> bool" where
  "occurs_at s sub i = (i + length sub \<le> length s \<and> take (length sub) (drop i s) = sub)"

definition str_find :: "string \<Rightarrow> string \<Rightarrow> nat \<Rightarrow> nat option" where
  "str_find s sub start = List.find (occurs_at s sub) [start..<Suc (length s)]"

text \<open>\<open>sub in s\<close>\<close>

definition is_substring :: "string \<Rightarrow> string \<Rightarrow> bool" where
  "is_substring sub s = (str_find s sub 0 \<noteq> None)"

text \<open>\<open>re.sub(' +', ' ', s)\<close>: every run of spaces becomes one space.\<close>

fun collapse_spaces :: "string \<Rightarrow> string" where
  "collapse_spaces [] = []"
| "collapse_spaces [c] = [c]"
| "collapse_spaces (c # d # cs) =
     (if c = CHR '' '' \<and> d = CHR '' '' then collapse_spaces (d # cs)
      else c # collapse_spaces (d # cs))"

subsection \<open>The pattern \<open>\b + re.escape(target) + \b\<close>\<close>

definition is_word_char :: "char \<Rightarrow> bool" where
  "is_word_char c =
     (let n = (of_char c :: nat)
      in (48 \<le> n \<and> n \<le> 57) \<or> (65 \<le> n \<and> n \<le> 90) \<or> (97 \<le> n \<and> n \<le> 122) \<or> n = 95)"

text \<open>
  \<open>\b\<close> holds at index \<open>i\<close> of \<open>s\<close> when exactly one of the characters before and after
  the index is a word character (the ends of the string count as non-word).
\<close>

definition word_boundary :: "string \<Rightarrow> nat \<Rightarrow> bool" where
  "word_boundary s i =
     ((0 < i \<and> i \<le> length s \<and> is_word_char (s ! (i - 1)))
        \<noteq> (i < length s \<and> is_word_char (s ! i)))"

text \<open>
  \<open>re.escape\<close> makes the target a literal, so the pattern matches at \<open>i\<close> exactly when
  the target occurs there between two word boundaries.
\<close>

definition match_at :: "string \<Rightarrow> string \<Rightarrow> nat \<Rightarrow> bool" where
  "match_at s t i =
     (occurs_at s t i \<and> word_boundary s i \<and> word_boundary s (i + length t))"

text \<open>
  \<open>list(re.finditer(pattern, sentence))\<close> as the list of spans: the scan goes left to
  right, and after a match it resumes at the end of the match (one further for an empty
  match).
\<close>

function finditer :: "string \<Rightarrow> string \<Rightarrow> nat \<Rightarrow> (nat \<times> nat) list" where
  "finditer s t pos =
     (if length s < pos then []
      else if match_at s t pos
        then (pos, pos + length t) # finditer s t (pos + max 1 (length t))
        else finditer s t (pos + 1))"
  by pat_completeness auto
termination
  by (relation "measure (\<lambda>(s, t, pos). Suc (length s) - pos)") auto

subsection \<open>replace\_nth\_occurrence2 (lines 65-87)\<close>

text \<open>
  The \<open>while\<close> loop, entered with \<open>occurrence_count < n\<close>; the last argument is
  \<open>n - occurrence_count\<close>. \<open>None\<close> is the branch \<open>start == -1\<close>.
\<close>

fun find_nth :: "string \<Rightarrow> string \<Rightarrow> nat \<Rightarrow> nat \<Rightarrow> nat option" where
  "find_nth s2 old_phrase start 0 = Some start"
| "find_nth s2 old_phrase start (Suc k) =
     (case str_find s2 old_phrase start of
        None \<Rightarrow> None
      | Some st \<Rightarrow>
          if k = 0 then Some st else find_nth s2 old_phrase (st + length old_phrase) k)"

definition replace_nth_occurrence2 :: "string \<Rightarrow> string \<Rightarrow> string \<Rightarrow> int \<Rightarrow> string" where
  "replace_nth_occurrence2 sentence old_phrase new_phrase n =
     (let sentence2 = lower sentence
      in case find_nth sentence2 old_phrase 0 (nat n) of
           None \<Rightarrow> sentence
         | Some start \<Rightarrow>
             (let end = start + length old_phrase
              in take start sentence @ new_phrase @ drop end sentence))"

subsection \<open>replace\_nth\_occurrence (lines 40-63)\<close>

text \<open>\<open>xs[i]\<close> with Python's negative indices.\<close>

definition py_index :: "'a list \<Rightarrow> int \<Rightarrow> error + 'a" where
  "py_index xs i =
     (if 0 \<le> i \<and> i < int (length xs) then Inr (xs ! nat i)
      else if i < 0 \<and> - int (length xs) \<le> i then Inr (xs ! nat (int (length xs) + i))
      else Inl (IndexError ''list index out of range''))"

text \<open>The two diagnostic \<open>print\<close> calls of the source write to the console only.\<close>

definition replace_nth_occurrence :: "string \<Rightarrow> string \<Rightarrow> string \<Rightarrow> int \<Rightarrow> error + string" where
  "replace_nth_occurrence sentence target replacement n =
     (let matches = finditer sentence target 0
      in if int (length matches) < n
           then Inr (replace_nth_occurrence2 sentence target replacement n)
         else (case py_index matches (n - 1) of
                 Inl e \<Rightarrow> Inl e
               | Inr (start, end) \<Rightarrow>
                   Inr (take start sentence @ replacement @ drop end sentence)))"

subsection \<open>window (lines 22-37)\<close>

text \<open>
  The generator first takes \<open>sz\<close> (the source's \<open>size\<close>) elements with \<open>next\<close>. When
  the iterable is shorter, \<open>next\<close> raises \<open>StopIteration\<close> inside the generator, which
  Python turns into a \<open>RuntimeError\<close> at the first request. Every later element shifts
  the window by one: \<open>win = win[1:] + [e]\<close> (\<open>[][1:]\<close> is \<open>[]\<close>, as \<open>tl []\<close> is).
\<close>

fun window_rest :: "'a list \<Rightarrow> 'a list \<Rightarrow> 'a list list" where
  "window_rest win [] = []"
| "window_rest win (e # es) = (let w = tl win @ [e] in w # window_rest w es)"

definition window :: "'a list \<Rightarrow> nat \<Rightarrow> error + 'a list list" where
  "window iterable sz =
     (if length iterable < sz then Inl (RuntimeError ''generator raised StopIteration'')
      else Inr (take sz iterable # window_rest (take sz iterable) (drop sz iterable)))"

subsection \<open>\_get\_data\_tuple (lines 89-123)\<close>

text \<open>
  The search loop over \<open>enumerate(window(sptoks, len(asp_term_in)))\<close> with its two
  branches and their \<open>break\<close>; \<open>aspect_is\<close> stays \<open>[]\<close> when no window qualifies.
\<close>

fun find_aspect :: "string \<Rightarrow> nat \<Rightarrow> nat \<Rightarrow> string list list \<Rightarrow> nat list" where
  "find_aspect asp_term n i [] = []"
| "find_aspect asp_term n i (grp # rest) =
     (if asp_term = join '' '' (map lower grp) then [i..<i + n]
      else if is_substring asp_term (join '' '' (map lower grp)) then [i..<i + n]
      else find_aspect asp_term n (Suc i) rest)"

text \<open>\<open>min(xs)\<close> of a list of integers\<close>

definition py_min :: "int list \<Rightarrow> error + int" where
  "py_min xs =
     (case xs of
        [] \<Rightarrow> Inl (ValueError ''min() arg is an empty sequence'')
      | y # ys \<Rightarrow> Inr (fold min ys y))"

definition aspect_indices :: "string list \<Rightarrow> string list \<Rightarrow> error + nat list" where
  "aspect_indices sptoks asp_term_in =
     (let asp_term = lower (join '' '' asp_term_in)
      in case window sptoks (length asp_term_in) of
           Inl e \<Rightarrow> Inl e
         | Inr groups \<Rightarrow> Inr (find_aspect asp_term (length asp_term_in) 0 groups))"

definition position_info :: "string list \<Rightarrow> nat list \<Rightarrow> error + int list" where
  "position_info sptoks aspect_is =
     mapM (\<lambda>i. py_min (map (\<lambda>a. \<bar>int i - int a\<bar>) aspect_is)) [0..<length sptoks]"

text \<open>
  The label is what \<open>opinion.get('polarity')\<close> returned: a string, or \<open>None\<close> when the
  attribute is absent. The message of the last branch formats \<open>lab\<close>, which is \<open>None\<close>
  there.
\<close>

definition label_value :: "string option \<Rightarrow> error + int" where
  "label_value label =
     (if label = Some ''negative'' then Inr (- 1)
      else if label = Some ''neutral'' then Inr 0
      else if label = Some ''positive'' then Inr 1
      else Inl (ValueError ''Unknown label: None''))"

definition get_data_tuple ::
    "string list \<Rightarrow> string list \<Rightarrow> string option \<Rightarrow> error + (int list \<times> int)" where
  "get_data_tuple sptoks asp_term_in label =
     (case aspect_indices sptoks asp_term_in of
        Inl e \<Rightarrow> Inl e
      | Inr aspect_is \<Rightarrow>
          (case position_info sptoks aspect_is of
             Inl e \<Rightarrow> Inl e
           | Inr pos_info \<Rightarrow>
               (case label_value label of
                  Inl e \<Rightarrow> Inl e
                | Inr lab \<Rightarrow> Inr (pos_info, lab))))"

text \<open>
  The aspect term is located by the window search: the generator yields its windows and
  one of them passes the test of line 102 or of line 105.
\<close>

definition located :: "string list \<Rightarrow> string list \<Rightarrow> bool" where
  "located sptoks asp_term_in =
     (case window sptoks (length asp_term_in) of
        Inl e \<Rightarrow> False
      | Inr groups \<Rightarrow>
          list_ex (\<lambda>g. lower (join '' '' asp_term_in) = join '' '' (map lower g)
                       \<or> is_substring (lower (join '' '' asp_term_in)) (join '' '' (map lower g)))
            groups)"

section \<open>read\_book\_hotel (lines 126-247)\<close>

text \<open>
  The corpus as \<open>xml.etree\<close> presents it to the reader. An opinion carries the three
  attributes the reader asks for with \<open>opinion.get\<close> (\<open>None\<close> when absent). A sentence
  carries what \<open>sentence.find('text')\<close> yields (\<open>None\<close>: no such child; \<open>Some None\<close>: a
  child without text) and, in document order, the \<open>Opinion\<close> children of its
  \<open>Opinions\<close> elements.
\<close>

record opinion =
  polarity :: "string option"
  target :: "string option"
  occurrence :: "string option"

record sentence =
  sentence_text :: "string option option"
  opinions :: "opinion list"

text \<open>
  What the reader takes from outside the repository: the file system
  (\<open>os.path.isfile\<close>, whether \<open>open(out_file, "w")\<close> succeeds), the XML parser
  (\<open>ET.parse(in_file).getroot().iter('sentence')\<close>), the tokenizer
  (\<open>nltk.word_tokenize\<close>) and the built-in \<open>int\<close> on a string.
\<close>

record env =
  isfile :: "string \<Rightarrow> bool"
  parse_sentences :: "string \<Rightarrow> error + sentence list"
  word_tokenize :: "string \<Rightarrow> string list"
  can_open_w :: "string \<Rightarrow> bool"
  int_of_str :: "string \<Rightarrow> error + int"

definition get_text :: "sentence \<Rightarrow> error + string" where
  "get_text sentence =
     (case sentence_text sentence of
        None \<Rightarrow> Inl (AttributeError ''NoneType object has no attribute text'')
      | Some None \<Rightarrow> Inl (TypeError ''expected string or bytes-like object'')
      | Some (Some sent) \<Rightarrow> Inr sent)"

subsection \<open>First pass (lines 158-186)\<close>

record scan =
  source_words :: "string list"
  target_words :: "string list"
  target_phrases :: "string list"
  max_sent_len :: nat
  max_target_len :: nat
  count_implicit :: nat
  count_confl :: nat

definition scan_opinion :: "env \<Rightarrow> scan \<Rightarrow> opinion \<Rightarrow> scan" where
  "scan_opinion E st opinion =
     (if polarity opinion = Some ''conflict''
        then st\<lparr>count_confl := count_confl st + 1\<rparr>
      else
        (case target opinion of
           None \<Rightarrow> st\<lparr>count_implicit := count_implicit st + 1\<rparr>
         | Some asp \<Rightarrow>
             if asp \<noteq> ''NULL'' then
               (let asp_new = collapse_spaces asp;
                    t_sptoks = word_tokenize E asp_new
                in st\<lparr>target_words := target_words st @ map lower t_sptoks,
                      target_phrases := target_phrases st @ [lower (join '' '' t_sptoks)],
                      max_target_len :=
                        (if max_target_len st < length t_sptoks then length t_sptoks
                         else max_target_len st)\<rparr>)
             else st\<lparr>count_implicit := count_implicit st + 1\<rparr>))"

definition scan_sentence :: "env \<Rightarrow> scan \<Rightarrow> sentence \<Rightarrow> error + scan" where
  "scan_sentence E st sentence =
     (case get_text sentence of
        Inl e \<Rightarrow> Inl e
      | Inr sent \<Rightarrow>
          (let sentence_new = collapse_spaces sent;
               sptoks = word_tokenize E sentence_new;
               st1 = st\<lparr>source_words := source_words st @ map lower sptoks,
                        max_sent_len :=
                          (if max_sent_len st < length sptoks then length sptoks
                           else max_sent_len st)\<rparr>
           in Inr (foldl (scan_opinion E) st1 (opinions sentence))))"

definition scan0 :: scan where
  "scan0 = \<lparr>source_words = [], target_words = [], target_phrases = [],
            max_sent_len = 0, max_target_len = 0, count_implicit = 0, count_confl = 0\<rparr>"

subsection \<open>Vocabularies (lines 187-198)\<close>

text \<open>
  \<open>Counter(xs).most_common()\<close>: the counts in order of first occurrence, then sorted by
  decreasing count; the sort is stable, as Python's is.
\<close>

fun count_add :: "string \<Rightarrow> (string \<times> nat) list \<Rightarrow> (string \<times> nat) list" where
  "count_add w [] = [(w, 1)]"
| "count_add w ((k, c) # rest) =
     (if k = w then (k, c + 1) # rest else (k, c) # count_add w rest)"

definition Counter :: "string list \<Rightarrow> (string \<times> nat) list" where
  "Counter xs = foldl (\<lambda>acc w. count_add w acc) [] xs"

definition most_common :: "(string \<times> nat) list \<Rightarrow> (string \<times> nat) list" where
  "most_common cs = sort_key (\<lambda>(w, c). - int c) cs"

text \<open>
  A dictionary from strings to indices is an association list in insertion order with
  distinct keys, so that \<open>len\<close> is \<open>length\<close>.
\<close>

type_synonym vocab = "(string \<times> nat) list"

definition add_key :: "vocab \<Rightarrow> string \<Rightarrow> vocab" where
  "add_key d w = (if map_of d w = None then d @ [(w, length d)] else d)"

definition lookup :: "vocab \<Rightarrow> string \<Rightarrow> error + nat" where
  "lookup d w = (case map_of d w of None \<Rightarrow> Inl (KeyError w) | Some i \<Rightarrow> Inr i)"

subsection \<open>Second pass (lines 200-236)\<close>

text \<open>\<open>str(lab)\<close>\<close>

function str_nat :: "nat \<Rightarrow> string" where
  "str_nat n =
     (if n < 10 then [char_of (48 + n)] else str_nat (n div 10) @ [char_of (48 + n mod 10)])"
  by pat_completeness auto
termination
  by (relation "measure id") auto

definition str_int :: "int \<Rightarrow> string" where
  "str_int i = (if i < 0 then CHR ''-'' # str_nat (nat (- i)) else str_nat (nat i))"

record collected =
  source_data :: "nat list list"
  source_loc_data :: "real list list"
  target_data :: "nat list"
  target_label :: "int list"
  out_f :: string

definition collect_opinion ::
    "env \<Rightarrow> vocab \<Rightarrow> string \<Rightarrow> string list \<Rightarrow> nat list \<Rightarrow> collected \<Rightarrow> opinion \<Rightarrow> error + collected" where
  "collect_opinion E target_phrase2idx sent sptoks idx acc opinion =
     (if polarity opinion = Some ''conflict'' then Inr acc
      else
        (case target opinion of
           None \<Rightarrow> Inr acc
         | Some asp \<Rightarrow>
             if asp \<noteq> ''NULL'' then
               (let asp_new = collapse_spaces asp;
                    t_sptoks = word_tokenize E asp_new;
                    outputtarget = lower asp
                in case (case occurrence opinion of
                           None \<Rightarrow> Inl (TypeError ''int() argument must be a string, not NoneType'')
                         | Some occ \<Rightarrow> int_of_str E occ) of
                     Inl e \<Rightarrow> Inl e
                   | Inr n \<Rightarrow>
                (case replace_nth_occurrence (lower sent) (lower asp) ''$T$'' n of
                     Inl e \<Rightarrow> Inl e
                   | Inr outputtext \<Rightarrow>
                (case get_data_tuple sptoks t_sptoks (polarity opinion) of
                     Inl e \<Rightarrow> Inl e
                   | Inr (pos_info0, lab) \<Rightarrow>
                (let pos_info = map (\<lambda>i. 1 - real_of_int i / real (length idx)) pos_info0;
                     targetdata = lower (join '' '' t_sptoks)
                 in case lookup target_phrase2idx targetdata of
                      Inl e \<Rightarrow> Inl e
                    | Inr t \<Rightarrow>
                        Inr \<lparr>source_data = source_data acc @ [idx],
                             source_loc_data = source_loc_data acc @ [pos_info],
                             target_data = target_data acc @ [t],
                             target_label = target_label acc @ [lab],
                             out_f = out_f acc @ outputtext @ [CHR 0x0A] @ outputtarget
                                       @ [CHR 0x0A] @ str_int lab @ [CHR 0x0A]\<rparr>))))
             else Inr acc))"

definition collect_sentence ::
    "env \<Rightarrow> vocab \<Rightarrow> vocab \<Rightarrow> collected \<Rightarrow> sentence \<Rightarrow> error + collected" where
  "collect_sentence E source_word2idx target_phrase2idx acc sentence =
     (case get_text sentence of
        Inl e \<Rightarrow> Inl e
      | Inr sent \<Rightarrow>
          (let sentence_new = collapse_spaces sent;
               sptoks = word_tokenize E sentence_new
           in if length sptoks \<noteq> 0 then
                (case mapM (\<lambda>sptok. lookup source_word2idx (lower sptok)) sptoks of
                   Inl e \<Rightarrow> Inl e
                 | Inr idx \<Rightarrow>
                     foldM (collect_opinion E target_phrase2idx sent sptoks idx) acc
                       (opinions sentence))
              else Inr acc))"

definition collected0 :: collected where
  "collected0 = \<lparr>source_data = [], source_loc_data = [], target_data = [],
                 target_label = [], out_f = []\<rparr>"

subsection \<open>The reader\<close>

text \<open>
  The value returned, and next to it what the call leaves behind: the four containers
  it was given, as mutated, and the content of the output file. Line 147 raises a
  string, which Python 3 refuses with a \<open>TypeError\<close> of its own. The statistics printed
  at the end divide by the number of aspects read.
\<close>

type_synonym returned =
  "nat list list \<times> real list list \<times> nat list \<times> int list \<times> nat \<times> real list list \<times> nat"

record effects =
  source_count_out :: "(string \<times> nat) list"
  source_word2idx_out :: vocab
  target_count_out :: "(string \<times> nat) list"
  target_phrase2idx_out :: vocab
  out_file_content :: string

definition read_book_hotel ::
    "env \<Rightarrow> string \<Rightarrow> (string \<times> nat) list \<Rightarrow> vocab \<Rightarrow> (string \<times> nat) list \<Rightarrow> vocab \<Rightarrow> string
       \<Rightarrow> error + (returned \<times> effects)" where
  "read_book_hotel E in_file source_count source_word2idx target_count target_phrase2idx out_file =
     (if \<not> isfile E in_file then Inl (TypeError ''exceptions must derive from BaseException'')
      else case parse_sentences E in_file of
        Inl e \<Rightarrow> Inl e
      | Inr root_sentences \<Rightarrow>
      if \<not> can_open_w E out_file then Inl (OSError out_file)
      else case foldM (scan_sentence E) scan0 root_sentences of
        Inl e \<Rightarrow> Inl e
      | Inr st \<Rightarrow>
      (let source_count1 =
             (if length source_count = 0 then source_count @ [(''<pad>'', 0)] else source_count);
           source_count2 = source_count1 @ most_common (Counter (source_words st @ target_words st));
           target_count2 = target_count @ most_common (Counter (target_phrases st));
           source_word2idx2 = foldl add_key source_word2idx (map fst source_count2);
           target_phrase2idx2 = foldl add_key target_phrase2idx (map fst target_count2)
       in case foldM (collect_sentence E source_word2idx2 target_phrase2idx2) collected0 root_sentences of
            Inl e \<Rightarrow> Inl e
          | Inr acc \<Rightarrow>
              if count_implicit st + count_confl st + length (source_data acc) = 0
                then Inl (ZeroDivisionError ''division by zero'')
              else if length (target_label acc) = 0
                then Inl (ZeroDivisionError ''division by zero'')
              else Inr ((source_data acc, source_loc_data acc, target_data acc, target_label acc,
                         max_sent_len st, source_loc_data acc, max_target_len st),
                        \<lparr>source_count_out = source_count2,
                         source_word2idx_out = source_word2idx2,
                         target_count_out = target_count2,
                         target_phrase2idx_out = target_phrase2idx2,
                         out_file_content = out_f acc\<rparr>)))"

text \<open>
  A tokenizer and an \<open>int\<close> for concrete runs: tokens are the maximal runs of characters
  other than the space, and \<open>int\<close> reads one decimal digit.
\<close>

fun split_spaces :: "string \<Rightarrow> string \<Rightarrow> string list" where
  "split_spaces cur [] = (if cur = [] then [] else [cur])"
| "split_spaces cur (c # cs) =
     (if c = CHR '' '' then (if cur = [] then split_spaces [] cs else cur # split_spaces [] cs)
      else split_spaces (cur @ [c]) cs)"

definition digit_int :: "string \<Rightarrow> error + int" where
  "digit_int s =
     (case s of
        [c] \<Rightarrow> (let n = (of_char c :: nat)
                in if 48 \<le> n \<and> n \<le> 57 then Inr (int n - 48)
                   else Inl (ValueError ''invalid literal for int() with base 10''))
      | _ \<Rightarrow> Inl (ValueError ''invalid literal for int() with base 10''))"

definition sample_env :: "sentence list \<Rightarrow> env" where
  "sample_env corpus =
     \<lparr>isfile = (\<lambda>p. p = ''train.xml''),
      parse_sentences = (\<lambda>p. Inr corpus),
      word_tokenize = split_spaces [],
      can_open_w = (\<lambda>p. True),
      int_of_str = digit_int\<rparr>"

definition sample_corpus :: "sentence list" where
  "sample_corpus =
     [\<lparr>sentence_text = Some (Some ''The coffee was great and the coffee was hot''),
       opinions = [\<lparr>polarity = Some ''positive'', target = Some ''coffee'',
                    occurrence = Some ''2''\<rparr>,
                   \<lparr>polarity = Some ''conflict'', target = Some ''coffee'',
                    occurrence = Some ''1''\<rparr>,
                   \<lparr>polarity = Some ''neutral'', target = Some ''NULL'',
                    occurrence = Some ''0''\<rparr>]\<rparr>]"

subsection \<open>What the returned features and lengths are measured against\<close>

text \<open>
  The second pass keeps an opinion, and appends one row for it, when its polarity is
  not \<open>"conflict"\<close> and its target is present and is not \<open>"NULL"\<close>.
\<close>

definition kept :: "opinion \<Rightarrow> bool" where
  "kept opinion =
     (polarity opinion \<noteq> Some ''conflict''
      \<and> (case target opinion of None \<Rightarrow> False | Some asp \<Rightarrow> asp \<noteq> ''NULL''))"

text \<open>The tokens of a sentence and of the target of an opinion.\<close>

definition sentence_tokens :: "env \<Rightarrow> sentence \<Rightarrow> string list" where
  "sentence_tokens E sentence =
     (case get_text sentence of
        Inl e \<Rightarrow> []
      | Inr sent \<Rightarrow> word_tokenize E (collapse_spaces sent))"

definition target_tokens :: "env \<Rightarrow> opinion \<Rightarrow> string list" where
  "target_tokens E opinion =
     (case target opinion of
        None \<Rightarrow> []
      | Some asp \<Rightarrow> word_tokenize E (collapse_spaces asp))"

text \<open>
  The kept opinions of a corpus in document order, each as the tokens of its sentence
  and the tokens of its target. A sentence without tokens is skipped by the second pass.
\<close>

definition kept_pairs :: "env \<Rightarrow> sentence list \<Rightarrow> (string list \<times> string list) list" where
  "kept_pairs E sentences =
     concat (map (\<lambda>s. if sentence_tokens E s = [] then []
                       else map (\<lambda>opn. (sentence_tokens E s, target_tokens E opn))
                              (filter kept (opinions s)))
               sentences)"

text \<open>
  \<open>d\<close> is the token distance from position \<open>i\<close> to the aspect: the distance to one of
  the aspect's positions, and no position of the aspect is nearer.
\<close>

definition nearest :: "nat \<Rightarrow> nat list \<Rightarrow> nat \<Rightarrow> bool" where
  "nearest i aspect_is d =
     (list_ex (\<lambda>a. int d = \<bar>int i - int a\<bar>) aspect_is
      \<and> list_all (\<lambda>a. int d \<le> \<bar>int i - int a\<bar>) aspect_is)"

text \<open>
  The row of distance features of a kept opinion: the window search locates the target
  in the sentence, the row has one value per token of the sentence, and the value at
  position \<open>i\<close> is \<open>1 - d / n\<close>, where \<open>n\<close> is the number of tokens of the sentence and
  \<open>d < n\<close> is the token distance from \<open>i\<close> to the located target.
\<close>

definition distance_row :: "string list \<times> string list \<Rightarrow> real list \<Rightarrow> bool" where
  "distance_row pair row =
     (case aspect_indices (fst pair) (snd pair) of
        Inl e \<Rightarrow> False
      | Inr aspect_is \<Rightarrow>
          length row = length (fst pair)
          \<and> list_all (\<lambda>i. list_ex (\<lambda>d. nearest i aspect_is d
                                        \<and> row ! i = 1 - real d / real (length (fst pair)))
                             [0..<length (fst pair)])
              [0..<length (fst pair)])"

text \<open>The number of tokens of a sentence, and of the target of an opinion that is kept.\<close>

definition token_count :: "env \<Rightarrow> sentence \<Rightarrow> nat" where
  "token_count E sentence =
     (case get_text sentence of
        Inl e \<Rightarrow> 0
      | Inr sent \<Rightarrow> length (word_tokenize E (collapse_spaces sent)))"

definition target_token_count :: "env \<Rightarrow> opinion \<Rightarrow> nat" where
  "target_token_count E opinion =
     (if polarity opinion = Some ''conflict'' then 0
      else case target opinion of
             None \<Rightarrow> 0
           | Some asp \<Rightarrow>
               if asp \<noteq> ''NULL'' then length (word_tokenize E (collapse_spaces asp)) else 0)"

section \<open>Tensors (bertmasker\_lcr.py)\<close>

text \<open>
  A tensor is the nested list of its entries, outermost dimension first. The source
  computes in float32; in the model a finite entry is a real number and the arithmetic
  on finite entries is exact, so rounding to the nearest float32 (underflow to zero
  included) is not modelled. Two
  behaviours of float32 that the properties below depend on are part of the model. The
  softmax of the library is a parameter of which only the range of its results is
  known: in float32 they reach 0 and 1 and differ from the exact quotients by rounding.
  The exponentials, products, sums and quotients of \<open>softmask_with_mask\<close> overflow to
  an infinity and turn into NaN as float32 does. The element-wise operations of the
  source act on tensors of matching shapes; the shapes are stated where a property
  needs them.
\<close>

type_synonym vec = "real list"
type_synonym mat = "real list list"
type_synonym tensor3 = "real list list list"

definition shape2 :: "nat \<Rightarrow> nat \<Rightarrow> 'a list list \<Rightarrow> bool" where
  "shape2 B L m = (length m = B \<and> list_all (\<lambda>r. length r = L) m)"

definition shape3 :: "nat \<Rightarrow> nat \<Rightarrow> nat \<Rightarrow> 'a list list list \<Rightarrow> bool" where
  "shape3 B L D t = (length t = B \<and> list_all (shape2 L D) t)"

text \<open>A mask or a gate is binary when each entry is 0 or 1.\<close>

definition binary2 :: "'a::zero_neq_one list list \<Rightarrow> bool" where
  "binary2 m = list_all (list_all (\<lambda>x. x = 0 \<or> x = 1)) m"

definition binary3 :: "'a::zero_neq_one list list list \<Rightarrow> bool" where
  "binary3 t = list_all binary2 t"

definition positive3 :: "tensor3 \<Rightarrow> bool" where
  "positive3 t = list_all (list_all (list_all (\<lambda>x. 0 < x))) t"

text \<open>
  \<open>w.unsqueeze(-1) * t\<close> (also written \<open>t * w.unsqueeze(-1)\<close>): each vector of \<open>t\<close> times
  the scalar of \<open>w\<close> at its position.
\<close>

definition scale :: "mat \<Rightarrow> tensor3 \<Rightarrow> tensor3" where
  "scale w t = map2 (map2 (\<lambda>c v. map (\<lambda>x. c * x) v)) w t"

text \<open>\<open>w.unsqueeze(-1) * e\<close> for one vector \<open>e\<close>, broadcast over every position\<close>

definition scale_vec :: "mat \<Rightarrow> vec \<Rightarrow> tensor3" where
  "scale_vec w e = map (map (\<lambda>c. map (\<lambda>x. c * x) e)) w"

definition add3 :: "tensor3 \<Rightarrow> tensor3 \<Rightarrow> tensor3" where
  "add3 s t = map2 (map2 (map2 (\<lambda>x y. x + y))) s t"

definition sub3 :: "tensor3 \<Rightarrow> tensor3 \<Rightarrow> tensor3" where
  "sub3 s t = map2 (map2 (map2 (\<lambda>x y. x - y))) s t"

definition mul2 :: "mat \<Rightarrow> mat \<Rightarrow> mat" where
  "mul2 a b = map2 (map2 (\<lambda>x y. x * y)) a b"

text \<open>\<open>1 - w\<close>\<close>

definition one_minus :: "mat \<Rightarrow> mat" where
  "one_minus w = map (map (\<lambda>x. 1 - x)) w"

text \<open>\<open>torch.sum(m, dim=1)\<close> of a matrix: one sum per example\<close>

definition sum_dim1_mat :: "mat \<Rightarrow> vec" where
  "sum_dim1_mat m = map sum_list m"

text \<open>
  \<open>torch.sum(t, dim=1)\<close> of a tensor of rank 3: for each example, the sum of its
  vectors over the positions. The width is read off the first position (with no
  position at all there is nothing to divide afterwards).
\<close>

definition sum_rows :: "mat \<Rightarrow> vec" where
  "sum_rows m =
     (case m of
        [] \<Rightarrow> []
      | r # _ \<Rightarrow> map (\<lambda>d. sum_list (map (\<lambda>row. row ! d) m)) [0..<length r])"

definition sum_dim1 :: "tensor3 \<Rightarrow> mat" where
  "sum_dim1 t = map sum_rows t"

text \<open>
  Division of floating-point tensors does not raise: a zero divisor gives an infinity or
  a NaN. \<open>None\<close> stands for these values.
\<close>

definition tdiv :: "real \<Rightarrow> real \<Rightarrow> real option" where
  "tdiv x y = (if y = 0 then None else Some (x / y))"

subsection \<open>gumbel\_softmax (lines 17-46)\<close>

text \<open>
  \<open>nn.functional.softmax(p, dim=-1)\<close> of line 40 is the argument \<open>F_softmax\<close>, a function
  on the vectors of the last dimension. What the model knows of it is that it keeps the
  length of a vector and returns probabilities, 0 and 1 included: the float32 softmax
  returns exactly 1 for an entry that dominates the others, and its other results are
  rounded.
\<close>

definition probabilities :: "(vec \<Rightarrow> vec) \<Rightarrow> bool" where
  "probabilities F_softmax =
     (\<forall>xs. length (F_softmax xs) = length xs
           \<and> list_all (\<lambda>p. 0 \<le> p \<and> p \<le> 1) (F_softmax xs))"

text \<open>The softmax over the reals, which the library function approximates.\<close>

definition softmax :: "vec \<Rightarrow> vec" where
  "softmax xs = map (\<lambda>x. exp x / sum_list (map exp xs)) xs"

text \<open>
  The uniform draw \<open>torch.rand((logits.size(0), MAX_LENGTH, 2))\<close> is the argument
  \<open>rand_u\<close>.
\<close>

definition gumbel_softmax :: "(vec \<Rightarrow> vec) \<Rightarrow> tensor3 \<Rightarrow> real \<Rightarrow> tensor3 \<Rightarrow> tensor3" where
  "gumbel_softmax F_softmax logits tau rand_u =
     (let eps = 1 / 10 ^ 20;
          samples = map (map (map (\<lambda>u. - ln (- ln (u + eps) + eps)))) rand_u;
          p = map2 (map2 (map2 (\<lambda>l g. (ln l + g) / tau))) logits samples
      in map (map F_softmax) p)"

subsection \<open>softmask\_with\_mask (lines 48-71)\<close>













subsection \<open>SharedPart.forward (lines 196-270)\<close>

text \<open>\<open>torch.round\<close> rounds a half to the even neighbour.\<close>

definition torch_round :: "real \<Rightarrow> real" where
  "torch_round x =
     (let f = \<lfloor>x\<rfloor>; d = x - of_int f
      in if d < 1 / 2 then of_int f
         else if 1 / 2 < d then of_int (f + 1)
         else if even f then of_int f else of_int (f + 1))"

text \<open>
  Lines 221-223. \<open>logits_pi\<close> is \<open>pi\<close>, the output of \<open>self.mlps\<close>; \<open>temp\<close> and \<open>masking\<close>
  are the fields of the module. \<open>detach\<close> changes the gradient only, not the value.
\<close>

definition gate_Ps :: "(vec \<Rightarrow> vec) \<Rightarrow> tensor3 \<Rightarrow> real \<Rightarrow> real \<Rightarrow> tensor3 \<Rightarrow> tensor3" where
  "gate_Ps F_softmax logits_pi temp masking rand_u =
     map (map (map (\<lambda>p. p - masking))) (gumbel_softmax F_softmax logits_pi temp rand_u)"

definition gate_Ph :: "(vec \<Rightarrow> vec) \<Rightarrow> tensor3 \<Rightarrow> real \<Rightarrow> real \<Rightarrow> tensor3 \<Rightarrow> tensor3" where
  "gate_Ph F_softmax logits_pi temp masking rand_u =
     map (map (map torch_round)) (gate_Ps F_softmax logits_pi temp masking rand_u)"

definition gate_P :: "(vec \<Rightarrow> vec) \<Rightarrow> tensor3 \<Rightarrow> real \<Rightarrow> real \<Rightarrow> tensor3 \<Rightarrow> tensor3" where
  "gate_P F_softmax logits_pi temp masking rand_u =
     (let Ps = gate_Ps F_softmax logits_pi temp masking rand_u;
          Ph = gate_Ph F_softmax logits_pi temp masking rand_u
      in add3 (sub3 Ph Ps) Ps)"

text \<open>\<open>P[torch.arange(P.size(0)), :, 0]\<close>\<close>

definition gate_slice :: "tensor3 \<Rightarrow> mat" where
  "gate_slice P = map (map (\<lambda>v. v ! 0)) P"

text \<open>
  Lines 226-228. \<open>scatter_\<close> along dimension 1 writes one entry of a row and raises when
  the index is outside the row. The batch sizes of \<open>input_embedding\<close> and
  \<open>segments_tensor\<close> agree.
\<close>

definition scatter1 :: "vec \<Rightarrow> int \<Rightarrow> real \<Rightarrow> error + vec" where
  "scatter1 row i v =
     (if 0 \<le> i \<and> i < int (length row) then Inr (row[nat i := v])
      else Inl (RuntimeError ''index out of bounds''))"

definition structural_zeros :: "nat \<Rightarrow> int list list \<Rightarrow> error + mat" where
  "structural_zeros MAX_LENGTH segments_tensor =
     mapM (\<lambda>seg. let s = sum_list seg - 1
                 in case scatter1 (replicate MAX_LENGTH 0) s 1 of
                      Inl e \<Rightarrow> Inl e
                    | Inr z \<Rightarrow> scatter1 z 0 1)
       segments_tensor"

text \<open>Lines 231-233; the result is also the output \<open>input_e\<close>.\<close>

definition embedded_inputs :: "tensor3 \<Rightarrow> tensor3 \<Rightarrow> vec \<Rightarrow> mat \<Rightarrow> tensor3" where
  "embedded_inputs P input_embedding mask_embedding zeros =
     (let e = add3 (scale (one_minus (gate_slice P)) input_embedding)
                (scale_vec (gate_slice P) mask_embedding)
      in add3 (scale (one_minus zeros) e) (scale zeros input_embedding))"

text \<open>Lines 252-255. The integer mask is converted where it meets a real tensor.\<close>

definition as_real :: "int list list \<Rightarrow> mat" where
  "as_real m = map (map real_of_int) m"

definition pooling_sum :: "tensor3 \<Rightarrow> int list list \<Rightarrow> mat \<Rightarrow> vec" where
  "pooling_sum P segments_tensor zeros =
     sum_dim1_mat (mul2 (mul2 (gate_slice P) (as_real segments_tensor)) (one_minus zeros))"

definition pooling_denominator :: "tensor3 \<Rightarrow> int list list \<Rightarrow> mat \<Rightarrow> vec" where
  "pooling_denominator P segments_tensor zeros =
     map (\<lambda>s. let condition = (s = 0) in s + (if condition then 1 else 0))
       (pooling_sum P segments_tensor zeros)"

definition private_rep2 ::
    "tensor3 \<Rightarrow> tensor3 \<Rightarrow> int list list \<Rightarrow> mat \<Rightarrow> real option list list" where
  "private_rep2 P hidden_embeddings segments_tensor zeros =
     (let e = scale (gate_slice P) hidden_embeddings;
          numerator = sum_dim1 (scale (one_minus zeros) (scale (as_real segments_tensor) e))
      in map2 (\<lambda>row d. map (\<lambda>x. tdiv x d) row) numerator
           (pooling_denominator P segments_tensor zeros))"

text \<open>Line 268\<close>

definition mask_perc :: "tensor3 \<Rightarrow> int list list \<Rightarrow> mat \<Rightarrow> real option list" where
  "mask_perc P segments_tensor zeros =
     map2 tdiv
       (sum_dim1_mat (mul2 (mul2 (gate_slice P) (as_real segments_tensor)) (one_minus zeros)))
       (sum_dim1_mat (mul2 (as_real segments_tensor) (one_minus zeros)))"

text \<open>
  The parts of \<open>forward\<close> that do not pass through the encoder or the two domain
  classifiers, in the order of the source: the gate, the structural mask, the masked
  input embeddings, the pooled private vector and the mask percentage.
\<close>

record forward_values =
  input_e :: tensor3
  pooled_private :: "real option list list"
  mask_percentage :: "real option list"

definition SharedPart_forward ::
    "(vec \<Rightarrow> vec) \<Rightarrow> nat \<Rightarrow> real \<Rightarrow> real \<Rightarrow> tensor3 \<Rightarrow> tensor3 \<Rightarrow> tensor3 \<Rightarrow> tensor3 \<Rightarrow> vec
       \<Rightarrow> int list list \<Rightarrow> error + forward_values" where
  "SharedPart_forward F_softmax MAX_LENGTH temp masking rand_u logits_pi hidden_embeddings
       input_embedding mask_embedding segments_tensor =
     (let P = gate_P F_softmax logits_pi temp masking rand_u
      in case structural_zeros MAX_LENGTH segments_tensor of
           Inl e \<Rightarrow> Inl e
         | Inr zeros \<Rightarrow>
             Inr \<lparr>input_e = embedded_inputs P input_embedding mask_embedding zeros,
                  pooled_private = private_rep2 P hidden_embeddings segments_tensor zeros,
                  mask_percentage = mask_perc P segments_tensor zeros\<rparr>)"

section \<open>Properties of the data reader\<close>

subsection \<open>Placeholder substitution\<close>

text \<open>
  C6. On the sentence "The coffee was great and the coffee was hot" with target "coffee",
  replacement "$T$" and n = 2, the whole-word matches are the two occurrences of the
  target, at characters 4-10 and 29-35; \<open>replace_nth_occurrence\<close> returns
  "The coffee was great and the $T$ was hot", which is the sentence with exactly the
  characters 29-35 (the second occurrence) replaced and every other character kept.
\<close>

theorem replace_nth_occurrence_coffee:
  "finditer ''The coffee was great and the coffee was hot'' ''coffee'' 0 = [(4, 10), (29, 35)]
   \<and> replace_nth_occurrence ''The coffee was great and the coffee was hot'' ''coffee'' ''$T$'' 2
       = Inr ''The coffee was great and the $T$ was hot''
   \<and> ''The coffee was great and the $T$ was hot''
       = take 29 ''The coffee was great and the coffee was hot'' @ ''$T$''
           @ drop 35 ''The coffee was great and the coffee was hot''"
  by code_simp

subsection \<open>The window search and the position features\<close>

lemma find_aspect_none:
  "\<forall>g \<in> set groups. \<not> (t = join '' '' (map lower g) \<or> is_substring t (join '' '' (map lower g)))
   \<Longrightarrow> find_aspect t n i groups = []"
  by (induction groups arbitrary: i) auto

lemma find_aspect_some:
  "find_aspect t n i groups \<noteq> []
   \<Longrightarrow> \<exists>g \<in> set groups. t = join '' '' (map lower g) \<or> is_substring t (join '' '' (map lower g))"
  using find_aspect_none by blast

lemma position_info_empty:
  assumes "sptoks \<noteq> []"
  shows "position_info sptoks [] = Inl (ValueError ''min() arg is an empty sequence'')"
proof -
  from assms have "[0..<length sptoks] = 0 # [1..<length sptoks]"
    by (simp add: upt_conv_Cons)
  then show ?thesis
    by (simp add: position_info_def py_min_def)
qed

lemma get_data_tuple_not_located:
  assumes "sptoks \<noteq> []" "length asp \<le> length sptoks" "\<not> located sptoks asp"
  shows "get_data_tuple sptoks asp label = Inl (ValueError ''min() arg is an empty sequence'')"
proof -
  obtain groups where w: "window sptoks (length asp) = Inr groups"
    using assms(2) by (auto simp: window_def)
  with assms(3) have "find_aspect (lower (join '' '' asp)) (length asp) 0 groups = []"
    by (intro find_aspect_none) (auto simp: located_def list_ex_iff)
  with w have "aspect_indices sptoks asp = Inr []"
    by (simp add: aspect_indices_def)
  then show ?thesis
    using position_info_empty[OF assms(1)] by (simp add: get_data_tuple_def)
qed

lemma get_data_tuple_located:
  assumes "get_data_tuple sptoks asp label = Inr r"
  shows "located sptoks asp"
proof -
  from assms obtain a p where a: "aspect_indices sptoks asp = Inr a"
    and p: "position_info sptoks a = Inr p"
    by (auto simp: get_data_tuple_def split: sum.splits)
  from a obtain groups where w: "window sptoks (length asp) = Inr groups"
    and f: "a = find_aspect (lower (join '' '' asp)) (length asp) 0 groups"
    by (auto simp: aspect_indices_def Let_def split: sum.splits)
  show ?thesis
  proof (cases "a = []")
    case False
    with f have "find_aspect (lower (join '' '' asp)) (length asp) 0 groups \<noteq> []" by simp
    from find_aspect_some[OF this] w show ?thesis
      by (auto simp: located_def list_ex_iff)
  next
    case True
    with p have "sptoks = []"
      using position_info_empty by (cases "sptoks = []") auto
    with w have "asp = []" "groups = [[]]"
      by (auto simp: window_def split: if_splits)
    with w show ?thesis
      by (simp add: located_def lower_def)
  qed
qed

text \<open>
  C9. \<open>_get_data_tuple\<close> is partial. Whenever the sentence has tokens, the aspect has no
  more tokens than the sentence, and the joined aspect term is neither equal to nor a
  substring of any window, \<open>aspect_is\<close> stays empty and the call raises the \<open>ValueError\<close>
  of \<open>min\<close> on an empty list, whatever the label. A call that returns has located the
  aspect term in the window search.
\<close>

theorem get_data_tuple_partial:
  "(sptoks \<noteq> [] \<and> length asp_term_in \<le> length sptoks \<and> \<not> located sptoks asp_term_in
      \<longrightarrow> get_data_tuple sptoks asp_term_in label
            = Inl (ValueError ''min() arg is an empty sequence''))
   \<and> ((\<exists>r. get_data_tuple sptoks asp_term_in label = Inr r) \<longrightarrow> located sptoks asp_term_in)"
  using get_data_tuple_not_located get_data_tuple_located by blast

lemma good_food_not_located: "\<not> located [''good'', ''food''] [''pizza'']"
  by code_simp

lemma coffee_features:
  "get_data_tuple [''The'', ''coffee''] [''coffee''] (Some ''negative'') = Inr ([1, 0], - 1)"
  by code_simp

theorem get_data_tuple_partial_witness:
  "\<not> located [''good'', ''food''] [''pizza'']
   \<and> get_data_tuple [''good'', ''food''] [''pizza''] (Some ''positive'')
       = Inl (ValueError ''min() arg is an empty sequence'')
   \<and> get_data_tuple [''The'', ''coffee''] [''coffee''] (Some ''negative'') = Inr ([1, 0], - 1)
   \<and> located [''The'', ''coffee''] [''coffee'']"
  using get_data_tuple_partial[of "[''good'', ''food'']" "[''pizza'']" "Some ''positive''"]
    get_data_tuple_partial[of "[''The'', ''coffee'']" "[''coffee'']" "Some ''negative''"]
    good_food_not_located coffee_features
  by simp

subsection \<open>The label\<close>

text \<open>
  C7, as the source has it. The label "negative" gives -1, "neutral" gives 0 and
  "positive" gives 1, and every other label makes the call raise. The call returns if
  and only if the label is one of the three strings and the position features before it
  were computed: the window search did not raise and no minimum was taken over an empty
  list. When they were computed, an unknown label raises the \<open>ValueError\<close> of line 121.
\<close>

theorem get_data_tuple_label:
  "(\<forall>pos lab. get_data_tuple sptoks asp_term_in label = Inr (pos, lab) \<longrightarrow>
       (label = Some ''negative'' \<and> lab = - 1) \<or> (label = Some ''neutral'' \<and> lab = 0)
         \<or> (label = Some ''positive'' \<and> lab = 1))
   \<and> (label \<noteq> Some ''negative'' \<and> label \<noteq> Some ''neutral'' \<and> label \<noteq> Some ''positive''
        \<longrightarrow> (\<exists>e. get_data_tuple sptoks asp_term_in label = Inl e))
   \<and> ((\<exists>r. get_data_tuple sptoks asp_term_in label = Inr r) \<longleftrightarrow>
        (label = Some ''negative'' \<or> label = Some ''neutral'' \<or> label = Some ''positive'')
          \<and> (\<exists>a p. aspect_indices sptoks asp_term_in = Inr a \<and> position_info sptoks a = Inr p))
   \<and> (\<forall>a p. aspect_indices sptoks asp_term_in = Inr a \<and> position_info sptoks a = Inr p \<longrightarrow>
          get_data_tuple sptoks asp_term_in (Some ''negative'') = Inr (p, - 1)
        \<and> get_data_tuple sptoks asp_term_in (Some ''neutral'') = Inr (p, 0)
        \<and> get_data_tuple sptoks asp_term_in (Some ''positive'') = Inr (p, 1)
        \<and> (label \<noteq> Some ''negative'' \<and> label \<noteq> Some ''neutral'' \<and> label \<noteq> Some ''positive''
             \<longrightarrow> get_data_tuple sptoks asp_term_in label
                   = Inl (ValueError ''Unknown label: None'')))"
  by (auto simp: get_data_tuple_def label_value_def split: sum.splits if_splits)

lemma coffee_indices: "aspect_indices [''The'', ''coffee''] [''coffee''] = Inr [1]"
  by code_simp

lemma coffee_positions: "position_info [''The'', ''coffee''] [1] = Inr [1, 0]"
  by code_simp

theorem get_data_tuple_label_witness:
  "get_data_tuple [''The'', ''coffee''] [''coffee''] (Some ''negative'') = Inr ([1, 0], - 1)
   \<and> get_data_tuple [''The'', ''coffee''] [''coffee''] (Some ''neutral'') = Inr ([1, 0], 0)
   \<and> get_data_tuple [''The'', ''coffee''] [''coffee''] (Some ''positive'') = Inr ([1, 0], 1)
   \<and> get_data_tuple [''The'', ''coffee''] [''coffee''] (Some ''mixed'')
       = Inl (ValueError ''Unknown label: None'')"
  using get_data_tuple_label[of "[''The'', ''coffee'']" "[''coffee'']" "Some ''mixed''"]
    coffee_indices coffee_positions
  by simp

text \<open>
  The label "positive" does not make the call return when the aspect term is not found:
  the minimum over the empty \<open>aspect_is\<close> raises first.
\<close>

theorem get_data_tuple_label_counterexample:
  "get_data_tuple [''good'', ''food''] [''pizza''] (Some ''positive'')
     = Inl (ValueError ''min() arg is an empty sequence'')"
  by code_simp

subsection \<open>The reader\<close>

lemma mapM_length: "mapM f xs = Inr ys \<Longrightarrow> length ys = length xs"
  by (induction xs arbitrary: ys) (auto split: sum.splits)

lemma mapM_elems: "mapM f xs = Inr ys \<Longrightarrow> y \<in> set ys \<Longrightarrow> \<exists>x \<in> set xs. f x = Inr y"
  by (induction xs arbitrary: ys) (auto split: sum.splits)

lemma length_window_rest: "length (window_rest w es) = length es"
  by (induction es arbitrary: w) (auto simp: Let_def)

lemma find_aspect_bound:
  "x \<in> set (find_aspect t n i groups) \<Longrightarrow> x + 1 < i + length groups + n"
proof (induction groups arbitrary: i)
  case Nil
  then show ?case by simp
next
  case (Cons g groups)
  show ?case
  proof (cases "x \<in> set [i..<i + n]")
    case True
    then show ?thesis by simp
  next
    case False
    with Cons.prems have "x \<in> set (find_aspect t n (Suc i) groups)"
      by (auto split: if_splits)
    from Cons.IH[OF this] show ?thesis by simp
  qed
qed

lemma aspect_indices_bound:
  assumes "aspect_indices sptoks asp = Inr a" "x \<in> set a"
  shows "x < length sptoks"
proof -
  from assms(1) obtain groups where w: "window sptoks (length asp) = Inr groups"
    and f: "a = find_aspect (lower (join '' '' asp)) (length asp) 0 groups"
    by (auto simp: aspect_indices_def Let_def split: sum.splits)
  from w have "length asp \<le> length sptoks" "length groups = Suc (length sptoks - length asp)"
    by (auto simp: window_def length_window_rest split: if_splits)
  with find_aspect_bound[of x "lower (join '' '' asp)" "length asp" 0 groups] assms(2) f
  show ?thesis by simp
qed

lemma fold_min_mem: "fold min ys (y::int) \<in> insert y (set ys)"
  by (induction ys arbitrary: y) (auto simp: min_def)

lemma py_min_mem: "py_min xs = Inr m \<Longrightarrow> m \<in> set xs"
  using fold_min_mem by (auto simp: py_min_def split: list.splits)

lemma position_info_bound:
  assumes "position_info sptoks a = Inr p" "\<forall>x \<in> set a. x < length sptoks"
  shows "length p = length sptoks \<and> (\<forall>d \<in> set p. 0 \<le> d \<and> d < int (length sptoks))"
proof
  show "length p = length sptoks"
    using mapM_length[OF assms(1)[unfolded position_info_def]] by simp
  show "\<forall>d \<in> set p. 0 \<le> d \<and> d < int (length sptoks)"
  proof
    fix d assume "d \<in> set p"
    from mapM_elems[OF assms(1)[unfolded position_info_def] this]
    obtain i where i: "i < length sptoks" and m: "py_min (map (\<lambda>a. \<bar>int i - int a\<bar>) a) = Inr d"
      by auto
    from py_min_mem[OF m] obtain x where "x \<in> set a" "d = \<bar>int i - int x\<bar>" by auto
    with assms(2) i show "0 \<le> d \<and> d < int (length sptoks)" by fastforce
  qed
qed

lemma mapM_nth: "mapM f xs = Inr ys \<Longrightarrow> i < length xs \<Longrightarrow> f (xs ! i) = Inr (ys ! i)"
proof (induction xs arbitrary: ys i)
  case Nil
  then show ?case by simp
next
  case (Cons x xs)
  then show ?case by (cases i) (auto split: sum.splits)
qed

lemma fold_min_le: "fold min ys (y::int) \<le> y \<and> (\<forall>z \<in> set ys. fold min ys y \<le> z)"
proof (induction ys arbitrary: y)
  case Nil
  then show ?case by simp
next
  case (Cons a ys)
  from Cons[of "min a y"] show ?case by auto
qed

lemma py_min_least: "py_min xs = Inr m \<Longrightarrow> z \<in> set xs \<Longrightarrow> m \<le> z"
  using fold_min_le by (auto simp: py_min_def split: list.splits)

lemma foldM_appends:
  assumes "foldM f s xs = Inr s'"
    and "\<And>t x t'. x \<in> set xs \<Longrightarrow> f t x = Inr t' \<Longrightarrow> \<exists>ys. g t' = g t @ ys \<and> list_all2 Q (k x) ys"
  shows "\<exists>ys. g s' = g s @ ys \<and> list_all2 Q (concat (map k xs)) ys"
  using assms
proof (induction xs arbitrary: s)
  case Nil
  then show ?case by simp
next
  case (Cons x xs)
  from Cons.prems(1) obtain t where t: "f s x = Inr t" and r: "foldM f t xs = Inr s'"
    by (auto split: sum.splits)
  from Cons.prems(2)[OF _ t] obtain ys1 where
    y1: "g t = g s @ ys1" "list_all2 Q (k x) ys1" by auto
  have "\<exists>ys. g u' = g u @ ys \<and> list_all2 Q (k y) ys" if "y \<in> set xs" "f u y = Inr u'" for u y u'
    using Cons.prems(2)[OF _ that(2)] that(1) by simp
  from Cons.IH[OF r this] obtain ys2 where
    y2: "g s' = g t @ ys2" "list_all2 Q (concat (map k xs)) ys2" by blast
  from y1 y2 have "g s' = g s @ (ys1 @ ys2)" "list_all2 Q (concat (map k (x # xs))) (ys1 @ ys2)"
    by (simp_all add: list_all2_appendI)
  then show ?case by blast
qed

lemma get_data_tuple_row:
  assumes "get_data_tuple sptoks asp label = Inr (p, lab)"
  shows "distance_row (sptoks, asp) (map (\<lambda>i. 1 - real_of_int i / real (length sptoks)) p)"
proof -
  from assms obtain a where a: "aspect_indices sptoks asp = Inr a"
    and p: "position_info sptoks a = Inr p"
    by (auto simp: get_data_tuple_def split: sum.splits)
  define n where "n = length sptoks"
  have len: "length p = n"
    using position_info_bound[OF p] aspect_indices_bound[OF a] by (simp add: n_def)
  have entry: "\<exists>d \<in> set [0..<n]. nearest i a d
      \<and> map (\<lambda>i. 1 - real_of_int i / real n) p ! i = 1 - real d / real n"
    if i: "i < n" for i
  proof -
    from mapM_nth[OF p[unfolded position_info_def], of i] i
    have m: "py_min (map (\<lambda>x. \<bar>int i - int x\<bar>) a) = Inr (p ! i)"
      by (simp add: n_def)
    from py_min_mem[OF m] obtain x where x: "x \<in> set a" "p ! i = \<bar>int i - int x\<bar>" by auto
    have least: "p ! i \<le> \<bar>int i - int y\<bar>" if "y \<in> set a" for y
      using py_min_least[OF m, of "\<bar>int i - int y\<bar>"] that by auto
    from aspect_indices_bound[OF a x(1)] x(2) i have b: "0 \<le> p ! i" "p ! i < int n"
      by (auto simp: n_def)
    have "nearest i a (nat (p ! i))"
      using x least b by (auto simp: nearest_def list_ex_iff list_all_iff)
    moreover have "map (\<lambda>i. 1 - real_of_int i / real n) p ! i = 1 - real (nat (p ! i)) / real n"
      using len i b by simp
    moreover have "nat (p ! i) \<in> set [0..<n]"
      using b by auto
    ultimately show ?thesis by blast
  qed
  show ?thesis
    using a len entry by (simp add: distance_row_def list_all_iff list_ex_iff n_def)
qed

lemma distance_row_range:
  assumes "distance_row pair row" "v \<in> set row"
  shows "0 \<le> v \<and> v \<le> 1"
proof -
  define n where "n = length (fst pair)"
  from assms(1) obtain a where len: "length row = n"
    and all: "\<forall>i \<in> set [0..<n]. \<exists>d \<in> set [0..<n]. nearest i a d \<and> row ! i = 1 - real d / real n"
    by (auto simp: distance_row_def list_all_iff list_ex_iff n_def split: sum.splits)
  from assms(2) len obtain i where i: "i < n" "v = row ! i"
    by (auto simp: in_set_conv_nth)
  from all i(1) obtain d where "d < n" "row ! i = 1 - real d / real n" by fastforce
  with i(2) have d: "d < n" "v = 1 - real d / real n" by simp_all
  then have "real d / real n \<le> 1" "0 \<le> real d / real n"
    by (simp_all add: divide_le_eq)
  with d show ?thesis by simp
qed

lemma collect_opinion_rows:
  assumes "collect_opinion E tp sent sptoks idx acc opinion = Inr acc'"
    "length idx = length sptoks"
  shows "\<exists>ys. source_loc_data acc' = source_loc_data acc @ ys
    \<and> list_all2 distance_row (if kept opinion then [(sptoks, target_tokens E opinion)] else []) ys"
proof (cases "kept opinion")
  case False
  with assms(1) have "acc' = acc"
    by (auto simp: collect_opinion_def kept_def split: option.splits if_splits)
  with False show ?thesis by simp
next
  case True
  then obtain asp where asp: "polarity opinion \<noteq> Some ''conflict''" "target opinion = Some asp"
    "asp \<noteq> ''NULL''"
    by (auto simp: kept_def split: option.splits)
  from assms(1) asp obtain p lab where
    g: "get_data_tuple sptoks (word_tokenize E (collapse_spaces asp)) (polarity opinion) = Inr (p, lab)"
    and r: "source_loc_data acc' = source_loc_data acc @ [map (\<lambda>i. 1 - real_of_int i / real (length idx)) p]"
    by (auto simp: collect_opinion_def Let_def split: sum.splits option.splits)
  from get_data_tuple_row[OF g] assms(2) asp(2)
  have "distance_row (sptoks, target_tokens E opinion)
          (map (\<lambda>i. 1 - real_of_int i / real (length idx)) p)"
    by (simp add: target_tokens_def)
  with r True show ?thesis by simp
qed

lemma concat_kept:
  "concat (map (\<lambda>opn. if kept opn then [h opn] else []) ops) = map h (filter kept ops)"
  by (induction ops) simp_all

lemma collect_sentence_rows:
  assumes "collect_sentence E sw tp acc sentence = Inr acc'"
  shows "\<exists>ys. source_loc_data acc' = source_loc_data acc @ ys
    \<and> list_all2 distance_row
        (if sentence_tokens E sentence = [] then []
         else map (\<lambda>opn. (sentence_tokens E sentence, target_tokens E opn))
                (filter kept (opinions sentence))) ys"
proof -
  from assms(1) obtain sent where s: "get_text sentence = Inr sent"
    by (auto simp: collect_sentence_def split: sum.splits)
  define sptoks where "sptoks = word_tokenize E (collapse_spaces sent)"
  have st: "sentence_tokens E sentence = sptoks"
    using s by (simp add: sentence_tokens_def sptoks_def)
  show ?thesis
  proof (cases "length sptoks \<noteq> 0")
    case False
    with assms s have "acc' = acc" by (simp add: collect_sentence_def sptoks_def)
    with False st show ?thesis by simp
  next
    case True
    with assms(1) s obtain idx where
      i: "mapM (\<lambda>sptok. lookup sw (lower sptok)) sptoks = Inr idx"
      and f: "foldM (collect_opinion E tp sent sptoks idx) acc (opinions sentence) = Inr acc'"
      by (auto simp: collect_sentence_def sptoks_def Let_def split: sum.splits)
    from mapM_length[OF i] have l: "length idx = length sptoks" .
    have "\<exists>ys. source_loc_data acc' = source_loc_data acc @ ys
      \<and> list_all2 distance_row
          (concat (map (\<lambda>opn. if kept opn then [(sptoks, target_tokens E opn)] else [])
             (opinions sentence))) ys"
      by (rule foldM_appends[OF f]) (rule collect_opinion_rows[OF _ l])
    with True st show ?thesis by (simp add: concat_kept)
  qed
qed


lemma scan_opinion_fields:
  "max_sent_len (scan_opinion E st opinion) = max_sent_len st
   \<and> max_target_len (scan_opinion E st opinion) = max (max_target_len st) (target_token_count E opinion)"
  by (auto simp: scan_opinion_def target_token_count_def Let_def split: option.splits)

lemma foldl_scan_opinion:
  "max_sent_len (foldl (scan_opinion E) st ops) = max_sent_len st
   \<and> max_target_len (foldl (scan_opinion E) st ops)
       = foldl max (max_target_len st) (map (target_token_count E) ops)"
  by (induction ops arbitrary: st) (simp_all add: scan_opinion_fields)

lemma scan_sentence_fields:
  assumes "scan_sentence E st sentence = Inr st'"
  shows "max_sent_len st' = max (max_sent_len st) (token_count E sentence)
   \<and> max_target_len st'
       = foldl max (max_target_len st) (map (target_token_count E) (opinions sentence))"
  using assms
  by (auto simp: scan_sentence_def token_count_def Let_def foldl_scan_opinion split: sum.splits)

lemma foldM_scan_sentence:
  assumes "foldM (scan_sentence E) st sentences = Inr st'"
  shows "max_sent_len st' = foldl max (max_sent_len st) (map (token_count E) sentences)
   \<and> max_target_len st'
       = foldl max (max_target_len st)
           (map (target_token_count E) (concat (map opinions sentences)))"
  using assms
proof (induction sentences arbitrary: st)
  case Nil
  then show ?case by simp
next
  case (Cons x xs)
  from Cons.prems obtain t where t: "scan_sentence E st x = Inr t"
    and r: "foldM (scan_sentence E) t xs = Inr st'"
    by (auto split: sum.splits)
  from Cons.IH[OF r] scan_sentence_fields[OF t] show ?case by simp
qed

lemma sample_run:
  "read_book_hotel (sample_env sample_corpus) ''train.xml'' [] [] [] [] ''out.txt''
   = Inr (([[2, 1, 3, 4, 5, 2, 1, 3, 6]],
           [[8 / 9, 1, 8 / 9, 7 / 9, 2 / 3, 5 / 9, 4 / 9, 1 / 3, 2 / 9]], [0], [1], 9,
           [[8 / 9, 1, 8 / 9, 7 / 9, 2 / 3, 5 / 9, 4 / 9, 1 / 3, 2 / 9]], 1),
          \<lparr>source_count_out =
             [(''<pad>'', 0), (''coffee'', 3), (''the'', 2), (''was'', 2),
              (''great'', 1), (''and'', 1), (''hot'', 1)],
           source_word2idx_out =
             [(''<pad>'', 0), (''coffee'', 1), (''the'', 2), (''was'', 3),
              (''great'', 4), (''and'', 5), (''hot'', 6)],
           target_count_out = [(''coffee'', 1)],
           target_phrase2idx_out = [(''coffee'', 0)],
           out_file_content = ''the coffee was great and the $T$ was hot'' @ [CHR 0x0A]
              @ ''coffee'' @ [CHR 0x0A] @ ''1'' @ [CHR 0x0A]\<rparr>)"
  by code_simp

text \<open>
  C10. A call of \<open>read_book_hotel\<close> that returns gives a 7-tuple whose second and sixth
  components are the same list \<open>source_loc_data\<close>. That list has one row for each kept
  opinion of the corpus, in document order; the row of an opinion has one value per
  token of its sentence, and the value at a position is \<open>1 - d / n\<close>, with \<open>n\<close> the
  number of tokens of the sentence and \<open>d < n\<close> the token distance from the position to
  the target as the window search located it. Hence every value lies between 0 and 1.
  The fifth component is the largest number of tokens of a sentence and the seventh the
  largest number of tokens of a target that is kept.
\<close>

theorem read_book_hotel_returned:
  assumes "read_book_hotel E in_file source_count source_word2idx target_count target_phrase2idx
             out_file = Inr ((r1, r2, r3, r4, r5, r6, r7), eff)"
  shows "r6 = r2
    \<and> (\<exists>sentences. parse_sentences E in_file = Inr sentences
          \<and> list_all2 distance_row (kept_pairs E sentences) r2
          \<and> r5 = foldl max 0 (map (token_count E) sentences)
          \<and> r7 = foldl max 0 (map (target_token_count E) (concat (map opinions sentences))))
    \<and> (\<forall>row \<in> set r2. \<forall>v \<in> set row. 0 \<le> v \<and> v \<le> 1)"
proof -
  from assms obtain sentences st sw tp acc where
    p: "parse_sentences E in_file = Inr sentences"
    and s: "foldM (scan_sentence E) scan0 sentences = Inr st"
    and c: "foldM (collect_sentence E sw tp) collected0 sentences = Inr acc"
    and r: "r2 = source_loc_data acc" "r6 = source_loc_data acc" "r5 = max_sent_len st"
           "r7 = max_target_len st"
    by (auto simp: read_book_hotel_def Let_def split: if_splits sum.splits)
  have "\<exists>ys. source_loc_data acc = source_loc_data collected0 @ ys
      \<and> list_all2 distance_row
          (concat (map (\<lambda>s. if sentence_tokens E s = [] then []
                            else map (\<lambda>opn. (sentence_tokens E s, target_tokens E opn))
                                   (filter kept (opinions s))) sentences)) ys"
    by (rule foldM_appends[OF c]) (rule collect_sentence_rows)
  then have rows: "list_all2 distance_row (kept_pairs E sentences) (source_loc_data acc)"
    by (simp add: kept_pairs_def collected0_def)
  have range: "0 \<le> v \<and> v \<le> 1" if "row \<in> set (source_loc_data acc)" "v \<in> set row" for row v
  proof -
    from that(1) obtain i where "i < length (source_loc_data acc)" "row = source_loc_data acc ! i"
      by (auto simp: in_set_conv_nth)
    with rows have "distance_row (kept_pairs E sentences ! i) row"
      by (simp add: list_all2_conv_all_nth)
    from distance_row_range[OF this that(2)] show ?thesis .
  qed
  from foldM_scan_sentence[OF s] have
    "max_sent_len st = foldl max 0 (map (token_count E) sentences)"
    "max_target_len st = foldl max 0 (map (target_token_count E) (concat (map opinions sentences)))"
    by (simp_all add: scan0_def)
  with p r rows range show ?thesis by blast
qed

theorem read_book_hotel_returned_witness:
  "(\<exists>r1 r3 r4 eff.
      read_book_hotel (sample_env sample_corpus) ''train.xml'' [] [] [] [] ''out.txt''
        = Inr ((r1, [[8 / 9, 1, 8 / 9, 7 / 9, 2 / 3, 5 / 9, 4 / 9, 1 / 3, 2 / 9]], r3, r4, 9,
                [[8 / 9, 1, 8 / 9, 7 / 9, 2 / 3, 5 / 9, 4 / 9, 1 / 3, 2 / 9]], 1), eff))
   \<and> list_all2 distance_row (kept_pairs (sample_env sample_corpus) sample_corpus)
       [[8 / 9, 1, 8 / 9, 7 / 9, 2 / 3, 5 / 9, 4 / 9, 1 / 3, 2 / 9]]
   \<and> kept_pairs (sample_env sample_corpus) sample_corpus
       = [([''The'', ''coffee'', ''was'', ''great'', ''and'', ''the'', ''coffee'', ''was'', ''hot''],
           [''coffee''])]
   \<and> (9::nat) = foldl max 0 (map (token_count (sample_env sample_corpus)) sample_corpus)
   \<and> (1::nat) = foldl max 0 (map (target_token_count (sample_env sample_corpus))
                    (concat (map opinions sample_corpus)))"
proof -
  have k: "kept_pairs (sample_env sample_corpus) sample_corpus
       = [([''The'', ''coffee'', ''was'', ''great'', ''and'', ''the'', ''coffee'', ''was'', ''hot''],
           [''coffee''])]"
    by code_simp
  from read_book_hotel_returned[OF sample_run] sample_run k show ?thesis
    by (simp add: sample_env_def)
qed

lemma read_book_hotel_no_file:
  assumes "\<not> isfile E in_file"
  shows "read_book_hotel E in_file source_count source_word2idx target_count target_phrase2idx
           out_file = Inl (TypeError ''exceptions must derive from BaseException'')"
  using assms by (simp add: read_book_hotel_def)

text \<open>
  C8. With a path that names no file, line 147 is reached and the call ends there,
  before the parser, the tokenizer and the output file are touched, whatever they are.
  What is raised is the \<open>TypeError\<close> with which Python 3 refuses \<open>raise\<close> of a string;
  the message \<open>"[!] Data ... not found"\<close> is lost. With the path of an existing file the
  branch is not taken and the corpus is read.
\<close>

theorem read_book_hotel_missing_file:
  "read_book_hotel (sample_env sample_corpus) ''missing.xml'' [] [] [] [] ''out.txt''
     = Inl (TypeError ''exceptions must derive from BaseException'')
   \<and> (\<exists>r. read_book_hotel (sample_env sample_corpus) ''train.xml'' [] [] [] [] ''out.txt''
          = Inr r)"
proof -
  have "\<not> isfile (sample_env sample_corpus) ''missing.xml''"
    by (simp add: sample_env_def)
  from read_book_hotel_no_file[OF this] sample_run show ?thesis
    by blast
qed

section \<open>Properties of the model\<close>

subsection \<open>Shapes and entries\<close>

lemma shape2_iff: "shape2 B L m \<longleftrightarrow> length m = B \<and> (\<forall>b<B. length (m ! b) = L)"
  by (auto simp: shape2_def list_all_length)

lemma shape3_iff:
  "shape3 B L D t \<longleftrightarrow>
     length t = B \<and> (\<forall>b<B. length (t ! b) = L \<and> (\<forall>j<L. length (t ! b ! j) = D))"
  by (auto simp: shape3_def shape2_iff list_all_length)

lemma binary2_entry:
  "shape2 B L m \<Longrightarrow> binary2 m \<Longrightarrow> b < B \<Longrightarrow> j < L \<Longrightarrow> m ! b ! j = 0 \<or> m ! b ! j = 1"
  by (simp add: binary2_def shape2_iff list_all_length)

lemma shape3_map3: "shape3 B L D (map (map (map f)) t) = shape3 B L D t"
  by (auto simp: shape3_iff)

lemma shape2_one_minus: "shape2 B L (one_minus w) = shape2 B L w"
  by (auto simp: shape2_iff one_minus_def)


lemma shape3_scale:
  "shape2 B L w \<Longrightarrow> shape3 B L D t \<Longrightarrow> shape3 B L D (scale w t)"
  by (auto simp: shape3_iff shape2_iff scale_def)

lemma scale_nth:
  assumes "shape2 B L w" "shape3 B L D t" "b < B" "j < L" "d < D"
  shows "scale w t ! b ! j ! d = w ! b ! j * t ! b ! j ! d"
  using assms by (auto simp: shape3_iff shape2_iff scale_def)

lemma sum_rows_length:
  assumes "shape2 L D m" "0 < L"
  shows "length (sum_rows m) = D"
proof -
  from assms obtain r rs where "m = r # rs" "length r = D"
    by (cases m) (auto simp: shape2_def)
  then show ?thesis by (simp add: sum_rows_def)
qed

lemma sum_rows_nth:
  assumes "shape2 L D m" "0 < L" "d < D"
  shows "sum_rows m ! d = sum_list (map (\<lambda>j. m ! j ! d) [0..<L])"
proof -
  from assms(1,2) obtain r rs where m: "m = r # rs" "length r = D"
    by (cases m) (auto simp: shape2_def)
  have e: "map (\<lambda>row. row ! d) m = map (\<lambda>j. m ! j ! d) [0..<length m]"
    by (intro nth_equalityI) simp_all
  have l: "length m = L"
    using assms(1) by (simp add: shape2_def)
  have "sum_rows m ! d = sum_list (map (\<lambda>row. row ! d) m)"
    using m assms(3) by (simp add: sum_rows_def)
  also have "\<dots> = sum_list (map (\<lambda>j. m ! j ! d) [0..<L])"
    by (simp only: e l)
  finally show ?thesis .
qed

subsection \<open>The relaxed binary gate\<close>

lemma map2_map_same: "map2 g (map f xs) xs = map (\<lambda>x. g (f x) x) xs"
  by (induction xs) auto

lemma map2_same: "map2 g xs xs = map (\<lambda>x. g x x) xs"
  by (induction xs) auto

lemma straight_through: "add3 (sub3 (map (map (map f)) t) t) t = map (map (map f)) t"
  by (simp add: add3_def sub3_def map2_map_same map2_same)

lemma softmax_probabilities: "probabilities softmax"
  unfolding probabilities_def list_all_iff
proof (intro allI conjI ballI)
  fix xs :: "real list"
  show "length (softmax xs) = length xs" by (simp add: softmax_def)
  fix p assume "p \<in> set (softmax xs)"
  then obtain x where x: "x \<in> set xs" "p = exp x / sum_list (map exp xs)"
    by (auto simp: softmax_def)
  have le: "exp x \<le> sum_list (map exp xs)"
    by (rule member_le_sum_list) (use x(1) in auto)
  moreover have "0 < exp x" by simp
  ultimately have pos: "0 < sum_list (map exp xs)" by linarith
  from pos show "0 \<le> p"
    using x(2) by simp
  from le pos show "p \<le> 1"
    using x(2) by (simp add: divide_le_eq)
qed

lemma torch_round_binary:
  assumes "- 1 / 2 \<le> y" "y < 3 / 2"
  shows "torch_round y = 0 \<or> torch_round y = 1"
proof -
  have "- 1 \<le> \<lfloor>y\<rfloor>" "\<lfloor>y\<rfloor> < 2"
    using assms by (simp_all add: le_floor_iff floor_less_iff)
  then consider "\<lfloor>y\<rfloor> = - 1" | "\<lfloor>y\<rfloor> = 0" | "\<lfloor>y\<rfloor> = 1"
    by linarith
  then show ?thesis
  proof cases
    case 1
    then have "y < 0" by (simp add: floor_eq_iff)
    with 1 assms show ?thesis by (simp add: torch_round_def Let_def)
  next
    case 2
    then show ?thesis by (simp add: torch_round_def Let_def)
  next
    case 3
    then have "1 \<le> y" by (simp add: floor_eq_iff)
    with 3 assms show ?thesis by (simp add: torch_round_def Let_def)
  qed
qed

lemma shape3_vec: "shape3 B L D t \<Longrightarrow> row \<in> set t \<Longrightarrow> v \<in> set row \<Longrightarrow> length v = D"
  by (auto simp: shape3_def shape2_def list_all_iff)

lemma gumbel_softmax_vectors:
  assumes "shape3 B L 2 logits" "shape3 B L 2 rand_u"
    "row \<in> set (gumbel_softmax F_softmax logits tau rand_u)" "v \<in> set row"
  shows "\<exists>xs. length xs = 2 \<and> v = F_softmax xs"
proof -
  from assms(3) obtain lrow urow where
    lr: "lrow \<in> set logits" "urow \<in> set rand_u"
    and row: "row = map F_softmax (map2 (map2 (\<lambda>l g. (ln l + g) / tau)) lrow
                (map (map (\<lambda>u. - ln (- ln (u + 1 / 10 ^ 20) + 1 / 10 ^ 20))) urow))"
    by (auto simp: gumbel_softmax_def Let_def dest!: set_zip_leftD set_zip_rightD
             elim!: in_set_zipE)
  from assms(4) row obtain l u where
    lu: "l \<in> set lrow" "u \<in> set urow"
    and v: "v = F_softmax (map2 (\<lambda>l g. (ln l + g) / tau) l
                 (map (\<lambda>u. - ln (- ln (u + 1 / 10 ^ 20) + 1 / 10 ^ 20)) u))"
    by (auto elim!: in_set_zipE)
  from shape3_vec[OF assms(1) lr(1) lu(1)] shape3_vec[OF assms(2) lr(2) lu(2)]
  have "length (map2 (\<lambda>l g. (ln l + g) / tau) l
                 (map (\<lambda>u. - ln (- ln (u + 1 / 10 ^ 20) + 1 / 10 ^ 20)) u)) = 2"
    by simp
  with v show ?thesis by blast
qed

lemma gate_Ph_binary:
  assumes "probabilities F_softmax" "shape3 B L 2 logits" "shape3 B L 2 rand_u"
    "0 \<le> m" "m \<le> 1 / 2"
  shows "binary3 (gate_Ph F_softmax logits tau m rand_u)"
proof -
  have "x = 0 \<or> x = 1"
    if "row \<in> set (gumbel_softmax F_softmax logits tau rand_u)" "v \<in> set row" "p \<in> set v"
      "x = torch_round (p - m)" for row v p x
  proof -
    from gumbel_softmax_vectors[OF assms(2,3) that(1,2)] obtain xs where
      "v = F_softmax xs" by blast
    with assms(1) that(3) have "0 \<le> p" "p \<le> 1"
      by (auto simp: probabilities_def list_all_iff)
    with assms(4,5) have "- 1 / 2 \<le> p - m" "p - m < 3 / 2" by auto
    from torch_round_binary[OF this] that(4) show ?thesis by simp
  qed
  then show ?thesis
    by (auto simp: binary3_def binary2_def list_all_iff gate_Ph_def gate_Ps_def)
qed

lemma gate_P_eq_Ph: "gate_P F_softmax logits tau m rand_u = gate_Ph F_softmax logits tau m rand_u"
  by (simp add: gate_P_def gate_Ph_def straight_through Let_def)

lemma gumbel_softmax_two:
  assumes "0 < a" "0 < b"
  shows "gumbel_softmax softmax [[[a, b]]] 1 [[[u, u]]] = [[[a / (a + b), b / (a + b)]]]"
proof -
  define g where "g = - ln (- ln (u + 1 / 10 ^ 20) + 1 / 10 ^ 20)"
  have "exp (ln a + g) = a * exp g" "exp (ln b + g) = b * exp g"
    using assms by (simp_all add: exp_add)
  moreover have "a * exp g + b * exp g = (a + b) * exp g"
    by (simp add: algebra_simps)
  ultimately show ?thesis
    by (simp add: gumbel_softmax_def softmax_def Let_def g_def)
qed

lemma gate_low_offset:
  "gate_P softmax [[[1 / 4, 3 / 4]]] 1 (1 / 10) [[[1 / 2, 1 / 2]]] = [[[0, 1]]]"
  using gumbel_softmax_two[of "1 / 4" "3 / 4" "1 / 2"]
  by (simp add: gate_P_def gate_Ph_def gate_Ps_def add3_def sub3_def torch_round_def Let_def)

text \<open>
  C1, as the source has it. For a logits tensor and a uniform draw of shape
  \<open>B x MAX_LENGTH x 2\<close>, positive logits, a positive temperature and a softmax that
  returns probabilities, the value \<open>P\<close> of lines 221-223 is
  \<open>round(softmax((log(logits) + noise) / tau) - m)\<close> at every position and equals the hard
  decision \<open>Ph\<close>, for every masking offset \<open>m\<close>. Every entry of \<open>P\<close> is 0 or 1 when
  \<open>0 \<le> m \<le> 1/2\<close> (the default of the source is 1/10): the relaxed value then lies
  between -1/2 and 1, both ends included, and a half is rounded to the even neighbour 0.
\<close>

theorem gate_forward_value:
  assumes "probabilities F_softmax"
    "shape3 B MAX_LENGTH 2 logits_pi" "shape3 B MAX_LENGTH 2 rand_u"
    "positive3 logits_pi" "0 < temp"
  shows "gate_P F_softmax logits_pi temp masking rand_u
           = map (map (map (\<lambda>p. torch_round (p - masking))))
               (gumbel_softmax F_softmax logits_pi temp rand_u)
    \<and> gate_P F_softmax logits_pi temp masking rand_u
           = gate_Ph F_softmax logits_pi temp masking rand_u
    \<and> (0 \<le> masking \<and> masking \<le> 1 / 2
         \<longrightarrow> binary3 (gate_P F_softmax logits_pi temp masking rand_u))"
  using gate_Ph_binary[OF assms(1,2,3)]
  by (simp add: gate_P_eq_Ph gate_Ph_def gate_Ps_def comp_def)

theorem gate_forward_value_witness:
  "gate_P softmax [[[1 / 4, 3 / 4]]] 1 (1 / 10) [[[1 / 2, 1 / 2]]] = [[[0, 1]]]
   \<and> gate_Ph softmax [[[1 / 4, 3 / 4]]] 1 (1 / 10) [[[1 / 2, 1 / 2]]] = [[[0, 1]]]
   \<and> binary3 (gate_P softmax [[[1 / 4, 3 / 4]]] 1 (1 / 10) [[[1 / 2, 1 / 2]]])"
proof -
  have h: "shape3 1 1 2 [[[1 / 4 :: real, 3 / 4]]]" "shape3 1 1 2 [[[1 / 2 :: real, 1 / 2]]]"
    "positive3 [[[1 / 4, 3 / 4]]]" "0 < (1::real)"
    by (simp_all add: shape3_def shape2_def positive3_def)
  from gate_forward_value[OF softmax_probabilities h, of "1 / 10"]
  have e: "gate_P softmax [[[1 / 4, 3 / 4]]] 1 (1 / 10) [[[1 / 2, 1 / 2]]]
          = gate_Ph softmax [[[1 / 4, 3 / 4]]] 1 (1 / 10) [[[1 / 2, 1 / 2]]]"
    and i: "0 \<le> (1 / 10 :: real) \<and> (1 / 10 :: real) \<le> 1 / 2
          \<longrightarrow> binary3 (gate_P softmax [[[1 / 4, 3 / 4]]] 1 (1 / 10) [[[1 / 2, 1 / 2]]])"
    by blast+
  from i have "binary3 (gate_P softmax [[[1 / 4, 3 / 4]]] 1 (1 / 10) [[[1 / 2, 1 / 2]]])" by simp
  with e gate_low_offset show ?thesis by simp
qed

text \<open>
  With the offset \<open>m = 4/5\<close>, logits \<open>(1/4, 3/4)\<close> and equal noise on both channels the
  relaxed value of the first channel is \<open>1/4 - 4/5 = -11/20\<close>, which rounds to -1.
\<close>

theorem gate_forward_value_counterexample:
  "gate_P softmax [[[1 / 4, 3 / 4]]] 1 (4 / 5) [[[1 / 2, 1 / 2]]] = [[[- 1, 0]]]"
  using gumbel_softmax_two[of "1 / 4" "3 / 4" "1 / 2"]
  by (simp add: gate_P_def gate_Ph_def gate_Ps_def add3_def sub3_def torch_round_def Let_def)

text \<open>
  The offset cannot go down to -1/2. A softmax that has saturated on its last entry
  returns the probabilities 0 and 1; the relaxed values are then 1/2 and 3/2, and the
  gate is 0 and 2.
\<close>

lemma gate_saturated:
  "probabilities (\<lambda>xs. map (\<lambda>i. if Suc i = length xs then 1 else 0) [0..<length xs])
   \<and> gate_P (\<lambda>xs. map (\<lambda>i. if Suc i = length xs then 1 else 0) [0..<length xs])
         [[[1 / 4, 3 / 4]]] 1 (- 1 / 2) [[[1 / 2, 1 / 2]]] = [[[0, 2]]]"
  by (auto simp: probabilities_def list_all_iff gate_P_eq_Ph gate_Ph_def gate_Ps_def
      gumbel_softmax_def torch_round_def Let_def)

subsection \<open>The masked softmax\<close>























subsection \<open>The structural mask\<close>

lemma mapM_total:
  "(\<And>x. x \<in> set xs \<Longrightarrow> \<exists>y. f x = Inr y) \<Longrightarrow> \<exists>ys. mapM f xs = Inr ys"
proof (induction xs)
  case Nil
  then show ?case by simp
next
  case (Cons x xs)
  then obtain y ys where "f x = Inr y" "mapM f xs = Inr ys" by (meson list.set_intros)
  then show ?case by simp
qed

lemma binary_sum_bounds:
  "list_all (\<lambda>x. x = 0 \<or> x = 1) (xs::int list) \<Longrightarrow> 0 \<le> sum_list xs \<and> sum_list xs \<le> int (length xs)"
  by (induction xs) auto

lemma structural_row:
  assumes "structural_zeros L seg = Inr Z" "b < length seg"
  shows "0 < L \<and> 0 \<le> sum_list (seg ! b) - 1 \<and> sum_list (seg ! b) - 1 < int L
    \<and> Z ! b = (replicate L 0)[nat (sum_list (seg ! b) - 1) := 1, 0 := 1]"
  using mapM_nth[OF assms[unfolded structural_zeros_def]]
  by (auto simp: scatter1_def Let_def split: if_splits sum.splits)

lemma structural_shape:
  assumes "structural_zeros L seg = Inr Z"
  shows "shape2 (length seg) L Z"
  using mapM_length[OF assms[unfolded structural_zeros_def]] structural_row[OF assms]
  by (simp add: shape2_iff)

lemma structural_entry:
  assumes "structural_zeros L seg = Inr Z" "b < length seg" "j < L"
  shows "Z ! b ! j = (if j = 0 \<or> j = nat (sum_list (seg ! b) - 1) then 1 else 0)"
  using structural_row[OF assms(1,2)] assms(3) by (auto simp: nth_list_update)

lemma structural_binary:
  assumes "structural_zeros L seg = Inr Z"
  shows "binary2 Z"
  unfolding binary2_def list_all_length
proof (intro allI impI)
  fix b j assume b: "b < length Z" and j: "j < length (Z ! b)"
  from structural_shape[OF assms] b j have "b < length seg" "j < L"
    by (auto simp: shape2_iff)
  from structural_entry[OF assms this] show "Z ! b ! j = 0 \<or> Z ! b ! j = 1" by simp
qed

lemma structural_total:
  assumes "shape2 B L seg" "binary2 seg" "\<forall>b<B. 1 \<le> sum_list (seg ! b)"
  shows "\<exists>Z. structural_zeros L seg = Inr Z"
  unfolding structural_zeros_def
proof (rule mapM_total)
  fix row assume "row \<in> set seg"
  then obtain b where b: "b < B" "row = seg ! b"
    using assms(1) by (auto simp: in_set_conv_nth shape2_iff)
  with assms(1,2) have "length row = L" "list_all (\<lambda>x. x = 0 \<or> x = 1) row"
    by (auto simp: shape2_iff binary2_def list_all_length)
  with binary_sum_bounds[of row] assms(3) b
  have "1 \<le> sum_list row" "sum_list row \<le> int L" by auto
  then show "\<exists>y. (let s = sum_list row - 1
                 in case scatter1 (replicate L 0) s 1 of
                      Inl e \<Rightarrow> Inl e
                    | Inr z \<Rightarrow> scatter1 z 0 1) = Inr y"
    by (auto simp: scatter1_def Let_def)
qed

lemma gate_slice_shape: "shape3 B L K P \<Longrightarrow> shape2 B L (gate_slice P)"
  by (auto simp: shape3_iff shape2_iff gate_slice_def)

lemma gate_slice_nth:
  "shape3 B L K P \<Longrightarrow> b < B \<Longrightarrow> j < L \<Longrightarrow> gate_slice P ! b ! j = P ! b ! j ! 0"
  by (auto simp: shape3_iff gate_slice_def)

lemma as_real_shape: "shape2 B L (as_real m) = shape2 B L m"
  by (auto simp: shape2_iff as_real_def)

lemma as_real_nth:
  "shape2 B L m \<Longrightarrow> b < B \<Longrightarrow> j < L \<Longrightarrow> as_real m ! b ! j = real_of_int (m ! b ! j)"
  by (auto simp: shape2_iff as_real_def)

lemma one_minus_entry:
  "shape2 B L w \<Longrightarrow> b < B \<Longrightarrow> j < L \<Longrightarrow> one_minus w ! b ! j = 1 - w ! b ! j"
  by (auto simp: shape2_iff one_minus_def)

lemma mul2_shape: "shape2 B L a \<Longrightarrow> shape2 B L c \<Longrightarrow> shape2 B L (mul2 a c)"
  by (auto simp: shape2_iff mul2_def)

lemma mul2_nth:
  "shape2 B L a \<Longrightarrow> shape2 B L c \<Longrightarrow> b < B \<Longrightarrow> j < L \<Longrightarrow> mul2 a c ! b ! j = a ! b ! j * c ! b ! j"
  by (auto simp: shape2_iff mul2_def)

lemma add3_shape: "shape3 B L D s \<Longrightarrow> shape3 B L D t \<Longrightarrow> shape3 B L D (add3 s t)"
  by (auto simp: shape3_iff add3_def)

lemma add3_nth:
  "shape3 B L D s \<Longrightarrow> shape3 B L D t \<Longrightarrow> b < B \<Longrightarrow> j < L \<Longrightarrow> d < D
   \<Longrightarrow> add3 s t ! b ! j ! d = s ! b ! j ! d + t ! b ! j ! d"
  by (auto simp: shape3_iff add3_def)

lemma scale_vec_shape: "shape2 B L w \<Longrightarrow> length e = D \<Longrightarrow> shape3 B L D (scale_vec w e)"
  by (auto simp: shape3_iff shape2_iff scale_vec_def)

lemma scale_vec_nth:
  "shape2 B L w \<Longrightarrow> length e = D \<Longrightarrow> b < B \<Longrightarrow> j < L \<Longrightarrow> d < D
   \<Longrightarrow> scale_vec w e ! b ! j ! d = w ! b ! j * e ! d"
  by (auto simp: shape2_iff scale_vec_def)

lemma sum_dim1_mat_nth:
  assumes "shape2 B L m" "b < B"
  shows "sum_dim1_mat m ! b = sum_list (map (\<lambda>j. m ! b ! j) [0..<L])"
proof -
  have l: "length (m ! b) = L" "b < length m"
    using assms by (simp_all add: shape2_iff)
  have "map (\<lambda>j. m ! b ! j) [0..<length (m ! b)] = m ! b"
    by (rule map_nth)
  with l show ?thesis by (simp add: sum_dim1_mat_def)
qed


subsection \<open>The masked input embeddings\<close>

lemma embedded_inputs_nth:
  assumes "shape3 B L K P" "shape3 B L D x" "length e = D" "shape2 B L Z"
  shows "shape3 B L D (embedded_inputs P x e Z)"
    and "b < B \<Longrightarrow> j < L \<Longrightarrow> d < D \<Longrightarrow>
         embedded_inputs P x e Z ! b ! j ! d
           = (1 - Z ! b ! j) * ((1 - P ! b ! j ! 0) * x ! b ! j ! d + P ! b ! j ! 0 * e ! d)
               + Z ! b ! j * x ! b ! j ! d"
proof -
  define G where "G = gate_slice P"
  have g: "shape2 B L G" "shape2 B L (one_minus G)" "shape2 B L (one_minus Z)"
    using assms by (simp_all add: G_def gate_slice_shape shape2_one_minus)
  define E where "E = add3 (scale (one_minus G) x) (scale_vec G e)"
  have s1: "shape3 B L D (scale (one_minus G) x)" "shape3 B L D (scale_vec G e)"
    using g assms by (simp_all add: shape3_scale scale_vec_shape)
  then have sE: "shape3 B L D E"
    by (simp add: E_def add3_shape)
  have s2: "shape3 B L D (scale (one_minus Z) E)" "shape3 B L D (scale Z x)"
    using g assms sE by (simp_all add: shape3_scale)
  have eq: "embedded_inputs P x e Z = add3 (scale (one_minus Z) E) (scale Z x)"
    by (simp add: embedded_inputs_def E_def G_def Let_def)
  show "shape3 B L D (embedded_inputs P x e Z)"
    using s2 by (simp add: eq add3_shape)
  assume b: "b < B" "j < L" "d < D"
  have "E ! b ! j ! d = (1 - P ! b ! j ! 0) * x ! b ! j ! d + P ! b ! j ! 0 * e ! d"
    using add3_nth[OF s1 b] scale_nth[OF g(2) assms(2) b] scale_vec_nth[OF g(1) assms(3) b]
      one_minus_entry[OF g(1) b(1,2)] gate_slice_nth[OF assms(1) b(1,2)]
    by (simp add: E_def G_def)
  then show "embedded_inputs P x e Z ! b ! j ! d
           = (1 - Z ! b ! j) * ((1 - P ! b ! j ! 0) * x ! b ! j ! d + P ! b ! j ! 0 * e ! d)
               + Z ! b ! j * x ! b ! j ! d"
    using add3_nth[OF s2 b] scale_nth[OF g(3) sE b] scale_nth[OF assms(4,2) b]
      one_minus_entry[OF assms(4) b(1,2)]
    by (simp add: eq)
qed

lemma structural_example: "structural_zeros 4 [[1, 1, 1, 0]] = Inr [[1, 0, 1, 0]]"
  by code_simp

text \<open>
  C3. For a batch whose binary segment mask sums to at least 2 in every example, the
  structural mask of lines 226-228 is built without error, and the masked input
  embeddings of lines 231-233 equal the original input embeddings at position 0 and at
  position (sum of the segment mask - 1) of every example, whatever the gate tensor \<open>P\<close>
  holds. At every other position the embedding is the interpolation
  \<open>(1 - P) * input + P * mask\<close> with the gate value of channel 0.
\<close>

theorem embedded_inputs_structural:
  assumes "shape3 B MAX_LENGTH 2 P" "shape3 B MAX_LENGTH D input_embedding"
    "length mask_embedding = D" "shape2 B MAX_LENGTH segments_tensor"
    "binary2 segments_tensor" "\<forall>b<B. 2 \<le> sum_list (segments_tensor ! b)"
  shows "\<exists>zeros. structural_zeros MAX_LENGTH segments_tensor = Inr zeros
    \<and> (\<forall>b<B.
          embedded_inputs P input_embedding mask_embedding zeros ! b ! 0 = input_embedding ! b ! 0
        \<and> embedded_inputs P input_embedding mask_embedding zeros
              ! b ! nat (sum_list (segments_tensor ! b) - 1)
            = input_embedding ! b ! nat (sum_list (segments_tensor ! b) - 1)
        \<and> (\<forall>j<MAX_LENGTH. j \<noteq> 0 \<and> j \<noteq> nat (sum_list (segments_tensor ! b) - 1) \<longrightarrow>
              (\<forall>d<D. embedded_inputs P input_embedding mask_embedding zeros ! b ! j ! d
                       = (1 - P ! b ! j ! 0) * input_embedding ! b ! j ! d
                           + P ! b ! j ! 0 * mask_embedding ! d)))"
proof -
  have "\<forall>b<B. 1 \<le> sum_list (segments_tensor ! b)"
    using assms(6) by force
  from structural_total[OF assms(4,5) this] obtain zeros where
    z: "structural_zeros MAX_LENGTH segments_tensor = Inr zeros" by blast
  have lb: "length segments_tensor = B"
    using assms(4) by (simp add: shape2_iff)
  have zs: "shape2 B MAX_LENGTH zeros"
    using structural_shape[OF z] lb by simp
  note e = embedded_inputs_nth[OF assms(1,2,3) zs]
  have vec: "embedded_inputs P input_embedding mask_embedding zeros ! b ! j = input_embedding ! b ! j"
    if "b < B" "j < MAX_LENGTH" "zeros ! b ! j = 1" for b j
  proof (rule nth_equalityI)
    show "length (embedded_inputs P input_embedding mask_embedding zeros ! b ! j)
        = length (input_embedding ! b ! j)"
      using e(1) assms(2) that by (simp add: shape3_iff)
  next
    fix d assume "d < length (embedded_inputs P input_embedding mask_embedding zeros ! b ! j)"
    then have "d < D" using e(1) that by (simp add: shape3_iff)
    from e(2)[OF that(1,2) this] that(3)
    show "embedded_inputs P input_embedding mask_embedding zeros ! b ! j ! d
        = input_embedding ! b ! j ! d" by simp
  qed
  have "embedded_inputs P input_embedding mask_embedding zeros ! b ! 0 = input_embedding ! b ! 0
        \<and> embedded_inputs P input_embedding mask_embedding zeros
              ! b ! nat (sum_list (segments_tensor ! b) - 1)
            = input_embedding ! b ! nat (sum_list (segments_tensor ! b) - 1)
        \<and> (\<forall>j<MAX_LENGTH. j \<noteq> 0 \<and> j \<noteq> nat (sum_list (segments_tensor ! b) - 1) \<longrightarrow>
              (\<forall>d<D. embedded_inputs P input_embedding mask_embedding zeros ! b ! j ! d
                       = (1 - P ! b ! j ! 0) * input_embedding ! b ! j ! d
                           + P ! b ! j ! 0 * mask_embedding ! d))"
    if b: "b < B" for b
  proof -
    from b lb have bl: "b < length segments_tensor" by simp
    from structural_row[OF z bl] have r: "0 < MAX_LENGTH"
      "nat (sum_list (segments_tensor ! b) - 1) < MAX_LENGTH" by auto
    have "zeros ! b ! 0 = 1" "zeros ! b ! nat (sum_list (segments_tensor ! b) - 1) = 1"
      using structural_entry[OF z bl r(1)] structural_entry[OF z bl r(2)] by simp_all
    moreover have "zeros ! b ! j = 0"
      if "j < MAX_LENGTH" "j \<noteq> 0" "j \<noteq> nat (sum_list (segments_tensor ! b) - 1)" for j
      using structural_entry[OF z bl that(1)] that(2,3) by simp
    ultimately show ?thesis
      using vec[OF b r(1)] vec[OF b r(2)] e(2)[OF b] by simp
  qed
  with z show ?thesis by blast
qed


theorem embedded_inputs_structural_witness:
  "structural_zeros 4 [[1, 1, 1, 0]] = Inr [[1, 0, 1, 0]]
   \<and> embedded_inputs [[[1, 0], [1, 0], [0, 1], [1, 0]]] [[[1, 2], [3, 4], [5, 6], [7, 8]]]
        [100, 200] [[1, 0, 1, 0]] ! 0 ! 0 = [1, 2]
   \<and> embedded_inputs [[[1, 0], [1, 0], [0, 1], [1, 0]]] [[[1, 2], [3, 4], [5, 6], [7, 8]]]
        [100, 200] [[1, 0, 1, 0]] ! 0 ! 2 = [5, 6]"
proof -
  have h: "shape3 1 4 2 [[[1::real, 0], [1, 0], [0, 1], [1, 0]]]"
    "shape3 1 4 2 [[[1::real, 2], [3, 4], [5, 6], [7, 8]]]"
    "length [100::real, 200] = 2" "shape2 1 4 [[1::int, 1, 1, 0]]"
    "binary2 [[1::int, 1, 1, 0]]" "\<forall>b<1. 2 \<le> sum_list ([[1::int, 1, 1, 0]] ! b)"
    by (simp_all add: shape3_def shape2_def binary2_def)
  from embedded_inputs_structural[OF h] structural_example show ?thesis
    by simp
qed

subsection \<open>The composed forward pass\<close>

lemma gumbel_softmax_shape:
  assumes "probabilities F_softmax" "shape3 B L K logits" "shape3 B L K rand_u"
  shows "shape3 B L K (gumbel_softmax F_softmax logits tau rand_u)"
  using assms by (auto simp: shape3_iff gumbel_softmax_def Let_def probabilities_def)

lemma gate_P_shape:
  assumes "probabilities F_softmax" "shape3 B L K logits" "shape3 B L K rand_u"
  shows "shape3 B L K (gate_P F_softmax logits tau m rand_u)"
  using gumbel_softmax_shape[OF assms]
  by (simp add: gate_P_eq_Ph gate_Ph_def gate_Ps_def shape3_map3)

lemma gate_slice_binary:
  assumes "shape3 B L 2 P" "binary3 P"
  shows "binary2 (gate_slice P)"
  unfolding binary2_def list_all_length
proof (intro allI impI)
  fix b j assume "b < length (gate_slice P)" "j < length (gate_slice P ! b)"
  then have b: "b < B" "j < L"
    using gate_slice_shape[OF assms(1)] by (auto simp: shape2_iff)
  have "list_all (\<lambda>x. x = 0 \<or> x = 1) (P ! b ! j)"
    using assms b by (simp add: binary3_def binary2_def list_all_length shape3_iff)
  moreover have "0 < length (P ! b ! j)"
    using assms(1) b by (simp add: shape3_iff)
  ultimately have "P ! b ! j ! 0 = 0 \<or> P ! b ! j ! 0 = 1"
    by (simp add: list_all_length)
  then show "gate_slice P ! b ! j = 0 \<or> gate_slice P ! b ! j = 1"
    by (simp add: gate_slice_nth[OF assms(1) b])
qed

lemma softmax_pair:
  assumes "0 < a" "0 < b"
  shows "softmax [ln a + g, ln b + g] = [a / (a + b), b / (a + b)]"
proof -
  have "exp (ln a + g) = a * exp g" "exp (ln b + g) = b * exp g"
    using assms by (simp_all add: exp_add)
  moreover have "a * exp g + b * exp g = (a + b) * exp g"
    by (simp add: algebra_simps)
  ultimately show ?thesis
    by (simp add: softmax_def)
qed

lemma softmax_pair_minus:
  "0 < a \<Longrightarrow> 0 < b \<Longrightarrow> softmax [ln a - h, ln b - h] = [a / (a + b), b / (a + b)]"
  using softmax_pair[of a b "- h"] by simp

lemma gumbel_example3:
  "gumbel_softmax softmax [[[1 / 4, 3 / 4], [1 / 4, 3 / 4], [1 / 4, 3 / 4]]] 1 [[[1 / 2, 1 / 2], [1 / 2, 1 / 2], [1 / 2, 1 / 2]]]
     = [[[1 / 4, 3 / 4], [1 / 4, 3 / 4], [1 / 4, 3 / 4]]]"
  by (simp add: gumbel_softmax_def Let_def softmax_pair_minus)

lemma gumbel_example4:
  "gumbel_softmax softmax [[[3 / 4, 1 / 4], [3 / 4, 1 / 4], [1 / 4, 3 / 4], [3 / 4, 1 / 4]]] 1
       [[[1 / 2, 1 / 2], [1 / 2, 1 / 2], [1 / 2, 1 / 2], [1 / 2, 1 / 2]]]
     = [[[3 / 4, 1 / 4], [3 / 4, 1 / 4], [1 / 4, 3 / 4], [3 / 4, 1 / 4]]]"
  by (simp add: gumbel_softmax_def Let_def softmax_pair_minus)

lemma gate_example3_low:
  "gate_P softmax [[[1 / 4, 3 / 4], [1 / 4, 3 / 4], [1 / 4, 3 / 4]]] 1 (1 / 10)
       [[[1 / 2, 1 / 2], [1 / 2, 1 / 2], [1 / 2, 1 / 2]]]
     = [[[0, 1], [0, 1], [0, 1]]]"
  by (simp add: gate_P_eq_Ph gate_Ph_def gate_Ps_def gumbel_example3 torch_round_def Let_def)

lemma gate_example3_high:
  "gate_P softmax [[[1 / 4, 3 / 4], [1 / 4, 3 / 4], [1 / 4, 3 / 4]]] 1 (4 / 5)
       [[[1 / 2, 1 / 2], [1 / 2, 1 / 2], [1 / 2, 1 / 2]]]
     = [[[- 1, 0], [- 1, 0], [- 1, 0]]]"
  by (simp add: gate_P_eq_Ph gate_Ph_def gate_Ps_def gumbel_example3 torch_round_def Let_def)

lemma gate_example4:
  "gate_P softmax [[[3 / 4, 1 / 4], [3 / 4, 1 / 4], [1 / 4, 3 / 4], [3 / 4, 1 / 4]]] 1 (1 / 10)
       [[[1 / 2, 1 / 2], [1 / 2, 1 / 2], [1 / 2, 1 / 2], [1 / 2, 1 / 2]]]
     = [[[1, 0], [1, 0], [0, 1], [1, 0]]]"
  by (simp add: gate_P_eq_Ph gate_Ph_def gate_Ps_def gumbel_example4 torch_round_def Let_def)


lemma forward_values:
  assumes "SharedPart_forward F_softmax L temp m rand_u logits h x e seg = Inr v"
  shows "\<exists>zeros. structural_zeros L seg = Inr zeros
    \<and> input_e v = embedded_inputs (gate_P F_softmax logits temp m rand_u) x e zeros
    \<and> pooled_private v = private_rep2 (gate_P F_softmax logits temp m rand_u) h seg zeros
    \<and> mask_percentage v = mask_perc (gate_P F_softmax logits temp m rand_u) seg zeros"
  using assms by (auto simp: SharedPart_forward_def Let_def split: sum.splits)

lemma zeros_example4: "structural_zeros 4 [[1, 1, 1, 1]] = Inr [[1, 0, 0, 1]]"
  by code_simp

lemma zeros_example3: "structural_zeros 3 [[1, 1, 1]] = Inr [[1, 0, 1]]"
  by code_simp

lemma zeros_example2: "structural_zeros 3 [[1, 1, 0]] = Inr [[1, 1, 0]]"
  by code_simp

lemma torch_round_nonneg:
  assumes "- 1 / 2 \<le> y"
  shows "0 \<le> torch_round y"
proof -
  have f: "- 1 \<le> \<lfloor>y\<rfloor>"
    using assms by (simp add: le_floor_iff)
  show ?thesis
  proof (cases "\<lfloor>y\<rfloor> = - 1")
    case True
    then have "y < 0" by (simp add: floor_eq_iff)
    with True assms show ?thesis by (simp add: torch_round_def Let_def)
  next
    case False
    with f have "0 \<le> \<lfloor>y\<rfloor>" by linarith
    then have "0 \<le> real_of_int \<lfloor>y\<rfloor>" "0 \<le> real_of_int \<lfloor>y\<rfloor> + 1"
      by linarith+
    then show ?thesis by (auto simp: torch_round_def Let_def simp del: zero_le_floor)
  qed
qed

lemma torch_round_nonpos:
  assumes "y < 1 / 2"
  shows "torch_round y \<le> 0"
proof -
  have f: "\<lfloor>y\<rfloor> \<le> 0"
    using assms by (simp add: floor_le_iff)
  show ?thesis
  proof (cases "\<lfloor>y\<rfloor> = 0")
    case True
    with assms show ?thesis by (simp add: torch_round_def Let_def)
  next
    case False
    with f have "\<lfloor>y\<rfloor> + 1 \<le> 0" by linarith
    then have "real_of_int \<lfloor>y\<rfloor> + 1 \<le> 0" "real_of_int \<lfloor>y\<rfloor> \<le> 0"
      by linarith+
    then show ?thesis by (auto simp: torch_round_def Let_def simp del: floor_le_zero)
  qed
qed

lemma gate_P_entry:
  assumes "probabilities F_softmax" "shape3 B L 2 logits" "shape3 B L 2 rand_u" "b < B" "j < L"
  shows "\<exists>p. 0 \<le> p \<and> p \<le> 1
    \<and> gate_P F_softmax logits tau m rand_u ! b ! j ! 0 = torch_round (p - m)"
proof -
  define G where "G = gumbel_softmax F_softmax logits tau rand_u"
  have sh: "shape3 B L 2 G"
    unfolding G_def by (rule gumbel_softmax_shape[OF assms(1,2,3)])
  then have mem: "G ! b \<in> set G" "G ! b ! j \<in> set (G ! b)" "G ! b ! j ! 0 \<in> set (G ! b ! j)"
    using assms(4,5) by (simp_all add: shape3_iff)
  from gumbel_softmax_vectors[OF assms(2,3) mem(1,2)[unfolded G_def]] obtain xs where
    "G ! b ! j = F_softmax xs" by (auto simp: G_def)
  with assms(1) mem(3) have "0 \<le> G ! b ! j ! 0" "G ! b ! j ! 0 \<le> 1"
    by (auto simp: probabilities_def list_all_iff)
  moreover have "gate_P F_softmax logits tau m rand_u ! b ! j ! 0 = torch_round (G ! b ! j ! 0 - m)"
    using sh assms(4,5)
    by (simp add: gate_P_eq_Ph gate_Ph_def gate_Ps_def G_def[symmetric] shape3_iff)
  ultimately show ?thesis by blast
qed

lemma gate_P_sign:
  assumes "probabilities F_softmax" "shape3 B L 2 logits" "shape3 B L 2 rand_u"
  shows "(\<forall>b<B. \<forall>j<L. 0 \<le> gate_P F_softmax logits tau m rand_u ! b ! j ! 0)
       \<or> (\<forall>b<B. \<forall>j<L. gate_P F_softmax logits tau m rand_u ! b ! j ! 0 \<le> 0)"
proof (cases "m \<le> 1 / 2")
  case True
  have "0 \<le> gate_P F_softmax logits tau m rand_u ! b ! j ! 0" if "b < B" "j < L" for b j
  proof -
    from gate_P_entry[OF assms that] obtain p where
      p: "0 \<le> p" "gate_P F_softmax logits tau m rand_u ! b ! j ! 0 = torch_round (p - m)" by blast
    with True have "- 1 / 2 \<le> p - m" by simp
    from torch_round_nonneg[OF this] p(2) show ?thesis by simp
  qed
  then show ?thesis by blast
next
  case False
  have "gate_P F_softmax logits tau m rand_u ! b ! j ! 0 \<le> 0" if "b < B" "j < L" for b j
  proof -
    from gate_P_entry[OF assms that] obtain p where
      p: "p \<le> 1" "gate_P F_softmax logits tau m rand_u ! b ! j ! 0 = torch_round (p - m)" by blast
    with False have "p - m < 1 / 2" by simp
    from torch_round_nonpos[OF this] p(2) show ?thesis by simp
  qed
  then show ?thesis by blast
qed

subsection \<open>The pooled private vector\<close>

lemma sum_list_zero: "(\<And>x. x \<in> set xs \<Longrightarrow> f x = (0::real)) \<Longrightarrow> sum_list (map f xs) = 0"
  by (induction xs) auto

lemma sum_list_cong_upt:
  "(\<And>j. j < L \<Longrightarrow> f j = g j) \<Longrightarrow> sum_list (map f [0..<L]) = sum_list (map g [0..<L])"
  by (intro arg_cong[where f = sum_list] map_cong) auto

lemma pooling_sum_nth:
  assumes "shape3 B L K P" "shape2 B L seg" "shape2 B L Z" "b < B"
  shows "pooling_sum P seg Z ! b
    = sum_list (map (\<lambda>j. P ! b ! j ! 0 * real_of_int (seg ! b ! j) * (1 - Z ! b ! j)) [0..<L])"
proof -
  have g: "shape2 B L (gate_slice P)" "shape2 B L (as_real seg)" "shape2 B L (one_minus Z)"
    using assms by (simp_all add: gate_slice_shape as_real_shape shape2_one_minus)
  have m: "shape2 B L (mul2 (gate_slice P) (as_real seg))"
    using g by (simp add: mul2_shape)
  have "pooling_sum P seg Z ! b
      = sum_list (map (\<lambda>j. mul2 (mul2 (gate_slice P) (as_real seg)) (one_minus Z) ! b ! j) [0..<L])"
    unfolding pooling_sum_def by (rule sum_dim1_mat_nth[OF mul2_shape[OF m g(3)] assms(4)])
  also have "\<dots> = sum_list (map (\<lambda>j. P ! b ! j ! 0 * real_of_int (seg ! b ! j) * (1 - Z ! b ! j)) [0..<L])"
    by (rule sum_list_cong_upt)
      (simp add: mul2_nth[OF m g(3) assms(4)] mul2_nth[OF g(1,2) assms(4)]
        gate_slice_nth[OF assms(1,4)] as_real_nth[OF assms(2,4)] one_minus_entry[OF assms(3,4)])
  finally show ?thesis .
qed

lemma private_rep2_nth:
  assumes "shape3 B L K P" "shape3 B L D h" "shape2 B L seg" "shape2 B L Z" "b < B" "0 < L"
  shows "private_rep2 P h seg Z ! b
    = map (\<lambda>d. tdiv (sum_list (map (\<lambda>j. (1 - Z ! b ! j)
                        * (real_of_int (seg ! b ! j) * (P ! b ! j ! 0 * h ! b ! j ! d))) [0..<L]))
                   (pooling_denominator P seg Z ! b)) [0..<D]"
proof -
  have g: "shape2 B L (gate_slice P)" "shape2 B L (as_real seg)" "shape2 B L (one_minus Z)"
    using assms by (simp_all add: gate_slice_shape as_real_shape shape2_one_minus)
  define N where "N = scale (one_minus Z) (scale (as_real seg) (scale (gate_slice P) h))"
  have s1: "shape3 B L D (scale (gate_slice P) h)"
    using g assms by (simp add: shape3_scale)
  have s2: "shape3 B L D (scale (as_real seg) (scale (gate_slice P) h))"
    using g s1 by (simp add: shape3_scale)
  have sN: "shape3 B L D N"
    using g s2 by (simp add: N_def shape3_scale)
  have ix: "N ! b ! j ! d
      = (1 - Z ! b ! j) * (real_of_int (seg ! b ! j) * (P ! b ! j ! 0 * h ! b ! j ! d))"
    if "j < L" "d < D" for j d
    using scale_nth[OF g(3) s2 assms(5) that] scale_nth[OF g(2) s1 assms(5) that]
      scale_nth[OF g(1) assms(2) assms(5) that] gate_slice_nth[OF assms(1,5) that(1)]
      as_real_nth[OF assms(3,5) that(1)] one_minus_entry[OF assms(4,5) that(1)]
    by (simp add: N_def)
  have rows: "shape2 L D (N ! b)"
    using sN assms(5) by (simp add: shape3_iff shape2_iff)
  have "sum_rows (N ! b)
      = map (\<lambda>d. sum_list (map (\<lambda>j. (1 - Z ! b ! j)
                        * (real_of_int (seg ! b ! j) * (P ! b ! j ! 0 * h ! b ! j ! d))) [0..<L]))
          [0..<D]"
  proof (rule nth_equalityI)
    show "length (sum_rows (N ! b)) = length (map (\<lambda>d. sum_list (map (\<lambda>j. (1 - Z ! b ! j)
                        * (real_of_int (seg ! b ! j) * (P ! b ! j ! 0 * h ! b ! j ! d))) [0..<L]))
          [0..<D])"
      using sum_rows_length[OF rows assms(6)] by simp
  next
    fix d assume "d < length (sum_rows (N ! b))"
    then have d: "d < D" using sum_rows_length[OF rows assms(6)] by simp
    have "sum_rows (N ! b) ! d = sum_list (map (\<lambda>j. N ! b ! j ! d) [0..<L])"
      by (rule sum_rows_nth[OF rows assms(6) d])
    also have "\<dots> = sum_list (map (\<lambda>j. (1 - Z ! b ! j)
                        * (real_of_int (seg ! b ! j) * (P ! b ! j ! 0 * h ! b ! j ! d))) [0..<L])"
      by (rule sum_list_cong_upt) (rule ix[OF _ d])
    also have "\<dots> = map (\<lambda>d. sum_list (map (\<lambda>j. (1 - Z ! b ! j)
                        * (real_of_int (seg ! b ! j) * (P ! b ! j ! 0 * h ! b ! j ! d))) [0..<L]))
          [0..<D] ! d"
      using d by simp
    finally show "sum_rows (N ! b) ! d = map (\<lambda>d. sum_list (map (\<lambda>j. (1 - Z ! b ! j)
                        * (real_of_int (seg ! b ! j) * (P ! b ! j ! 0 * h ! b ! j ! d))) [0..<L]))
          [0..<D] ! d" .
  qed
  moreover have "length (pooling_denominator P seg Z) = B"
    using g by (simp add: pooling_denominator_def pooling_sum_def sum_dim1_mat_def
        mul2_def shape2_iff)
  moreover have "length N = B"
    using sN by (simp add: shape3_iff)
  ultimately show ?thesis
    using assms(5)
    by (simp add: private_rep2_def Let_def N_def[symmetric] sum_dim1_def comp_def)
qed


lemma pooling_denominator_nth:
  assumes "shape3 B L K P" "shape2 B L seg" "shape2 B L Z" "b < B"
  shows "pooling_denominator P seg Z ! b
    = pooling_sum P seg Z ! b + (if pooling_sum P seg Z ! b = 0 then 1 else 0)"
    and "pooling_denominator P seg Z ! b \<noteq> 0"
proof -
  have "length (pooling_sum P seg Z) = B"
    using assms by (simp add: pooling_sum_def sum_dim1_mat_def mul2_def gate_slice_def
        as_real_def one_minus_def shape2_iff shape3_iff)
  with assms(4) show "pooling_denominator P seg Z ! b
    = pooling_sum P seg Z ! b + (if pooling_sum P seg Z ! b = 0 then 1 else 0)"
    by (simp add: pooling_denominator_def Let_def)
  then show "pooling_denominator P seg Z ! b \<noteq> 0" by simp
qed

lemma private_rep2_binary_gate:
  assumes "shape3 B MAX_LENGTH 2 P" "shape3 B MAX_LENGTH D hidden_embeddings"
    "shape2 B MAX_LENGTH segments_tensor" "binary2 segments_tensor" "binary2 (gate_slice P)"
    "structural_zeros MAX_LENGTH segments_tensor = Inr zeros" "b < B"
    "\<forall>j<MAX_LENGTH. \<not> (P ! b ! j ! 0 = 1 \<and> segments_tensor ! b ! j = 1 \<and> zeros ! b ! j = 0)"
  shows "pooling_sum P segments_tensor zeros ! b = 0
    \<and> pooling_denominator P segments_tensor zeros ! b = 1
    \<and> private_rep2 P hidden_embeddings segments_tensor zeros ! b = replicate D (Some 0)
    \<and> (\<forall>i<B. pooling_denominator P segments_tensor zeros ! i \<noteq> 0)"
proof -
  have lb: "length segments_tensor = B"
    using assms(3) by (simp add: shape2_iff)
  have zs: "shape2 B MAX_LENGTH zeros"
    using structural_shape[OF assms(6)] lb by simp
  have pos: "0 < MAX_LENGTH"
    using structural_row[OF assms(6)] assms(7) lb by simp
  have zero: "P ! b ! j ! 0 * real_of_int (segments_tensor ! b ! j) = 0 \<or> 1 - zeros ! b ! j = 0"
    if j: "j < MAX_LENGTH" for j
  proof -
    have "gate_slice P ! b ! j = 0 \<or> gate_slice P ! b ! j = 1"
      by (rule binary2_entry[OF gate_slice_shape[OF assms(1)] assms(5,7) j])
    then have "P ! b ! j ! 0 = 0 \<or> P ! b ! j ! 0 = 1"
      by (simp add: gate_slice_nth[OF assms(1,7) j])
    moreover have "segments_tensor ! b ! j = 0 \<or> segments_tensor ! b ! j = 1"
      by (rule binary2_entry[OF assms(3,4,7) j])
    moreover have "zeros ! b ! j = 0 \<or> zeros ! b ! j = 1"
      by (rule binary2_entry[OF zs structural_binary[OF assms(6)] assms(7) j])
    ultimately show ?thesis
      using assms(8) j by auto
  qed
  have s: "pooling_sum P segments_tensor zeros ! b = 0"
    unfolding pooling_sum_nth[OF assms(1,3) zs assms(7)]
    by (rule sum_list_zero) (use zero in auto)
  then have d: "pooling_denominator P segments_tensor zeros ! b = 1"
    by (simp add: pooling_denominator_nth(1)[OF assms(1,3) zs assms(7)])
  have n: "sum_list (map (\<lambda>j. (1 - zeros ! b ! j)
              * (real_of_int (segments_tensor ! b ! j)
                   * (P ! b ! j ! 0 * hidden_embeddings ! b ! j ! k))) [0..<MAX_LENGTH]) = 0" for k
    by (rule sum_list_zero) (use zero in auto)
  have "private_rep2 P hidden_embeddings segments_tensor zeros ! b = map (\<lambda>k. Some 0) [0..<D]"
    unfolding private_rep2_nth[OF assms(1,2,3) zs assms(7) pos] n d
    by (simp add: tdiv_def)
  also have "\<dots> = replicate D (Some 0)"
    by (simp add: map_replicate_const)
  finally have "private_rep2 P hidden_embeddings segments_tensor zeros ! b = replicate D (Some 0)" .
  moreover have "\<forall>i<B. pooling_denominator P segments_tensor zeros ! i \<noteq> 0"
    using pooling_denominator_nth(2)[OF assms(1,3) zs] by blast
  ultimately show ?thesis using s d by blast
qed

lemma sum_list_signed_zero:
  fixes f :: "nat \<Rightarrow> real"
  assumes "sum_list (map f [0..<L]) = 0" "(\<forall>j<L. 0 \<le> f j) \<or> (\<forall>j<L. f j \<le> 0)" "j < L"
  shows "f j = 0"
proof -
  from assms(2) show ?thesis
  proof
    assume "\<forall>j<L. 0 \<le> f j"
    then have "sum_list (map f [0..<L]) = 0 \<longleftrightarrow> (\<forall>x \<in> set (map f [0..<L]). x = 0)"
      by (intro sum_list_nonneg_eq_0_iff) auto
    with assms(1,3) show ?thesis by auto
  next
    assume n: "\<forall>j<L. f j \<le> 0"
    have "sum_list (map (\<lambda>j. - f j) [0..<L]) = - sum_list (map f [0..<L])"
      by (induction L) simp_all
    with assms(1) have z: "sum_list (map (\<lambda>j. - f j) [0..<L]) = 0" by simp
    from n have "sum_list (map (\<lambda>j. - f j) [0..<L]) = 0
        \<longleftrightarrow> (\<forall>x \<in> set (map (\<lambda>j. - f j) [0..<L]). x = 0)"
      by (intro sum_list_nonneg_eq_0_iff) auto
    with z assms(3) show ?thesis by auto
  qed
qed

lemma private_rep2_zero_sum:
  assumes "shape3 B L 2 P" "shape3 B L D h" "shape2 B L seg" "binary2 seg"
    "structural_zeros L seg = Inr zeros" "b < B"
    "(\<forall>j<L. 0 \<le> P ! b ! j ! 0) \<or> (\<forall>j<L. P ! b ! j ! 0 \<le> 0)"
    "pooling_sum P seg zeros ! b = 0"
  shows "pooling_denominator P seg zeros ! b = 1
    \<and> private_rep2 P h seg zeros ! b = replicate D (Some 0)"
proof -
  have lb: "length seg = B"
    using assms(3) by (simp add: shape2_iff)
  have zs: "shape2 B L zeros"
    using structural_shape[OF assms(5)] lb by simp
  have pos: "0 < L"
    using structural_row[OF assms(5)] assms(6) lb by simp
  define t where "t = (\<lambda>j. P ! b ! j ! 0 * real_of_int (seg ! b ! j) * (1 - zeros ! b ! j))"
  have w: "0 \<le> real_of_int (seg ! b ! j) * (1 - zeros ! b ! j)" if "j < L" for j
    using binary2_entry[OF assms(3,4,6) that]
      binary2_entry[OF zs structural_binary[OF assms(5)] assms(6) that]
    by auto
  have sign: "(\<forall>j<L. 0 \<le> t j) \<or> (\<forall>j<L. t j \<le> 0)"
    using assms(7)
  proof
    assume "\<forall>j<L. 0 \<le> P ! b ! j ! 0"
    then have "\<forall>j<L. 0 \<le> t j"
      using w by (simp add: t_def mult.assoc)
    then show ?thesis ..
  next
    assume "\<forall>j<L. P ! b ! j ! 0 \<le> 0"
    then have "\<forall>j<L. t j \<le> 0"
      using w by (simp add: t_def mult.assoc mult_nonpos_nonneg)
    then show ?thesis ..
  qed
  have "sum_list (map t [0..<L]) = 0"
    using assms(8) pooling_sum_nth[OF assms(1,3) zs assms(6)] by (simp add: t_def)
  from sum_list_signed_zero[OF this sign] have tz: "t j = 0" if "j < L" for j
    using that by blast
  have d: "pooling_denominator P seg zeros ! b = 1"
    using assms(8) by (simp add: pooling_denominator_nth(1)[OF assms(1,3) zs assms(6)])
  have n: "sum_list (map (\<lambda>j. (1 - zeros ! b ! j)
              * (real_of_int (seg ! b ! j) * (P ! b ! j ! 0 * h ! b ! j ! k))) [0..<L]) = 0" for k
  proof (rule sum_list_zero)
    fix j assume "j \<in> set [0..<L]"
    then have "t j = 0" using tz by simp
    then have "P ! b ! j ! 0 = 0 \<or> real_of_int (seg ! b ! j) = 0 \<or> 1 - zeros ! b ! j = 0"
      by (simp add: t_def)
    then show "(1 - zeros ! b ! j)
              * (real_of_int (seg ! b ! j) * (P ! b ! j ! 0 * h ! b ! j ! k)) = 0"
      by auto
  qed
  have "private_rep2 P h seg zeros ! b = map (\<lambda>k. Some 0) [0..<D]"
    unfolding private_rep2_nth[OF assms(1,2,3) zs assms(6) pos] n d
    by (simp add: tdiv_def)
  also have "\<dots> = replicate D (Some 0)"
    by (simp add: map_replicate_const)
  finally show ?thesis using d by simp
qed


lemma pooling_sum_gated:
  assumes "shape3 B L 2 P" "shape2 B L seg" "binary2 seg" "binary2 (gate_slice P)"
    "structural_zeros L seg = Inr zeros" "b < B"
    "j < L" "P ! b ! j ! 0 = 1" "seg ! b ! j = 1" "zeros ! b ! j = 0"
  shows "pooling_sum P seg zeros ! b \<noteq> 0"
proof -
  have lb: "length seg = B"
    using assms(2) by (simp add: shape2_iff)
  have zs: "shape2 B L zeros"
    using structural_shape[OF assms(5)] lb by simp
  define t where "t = (\<lambda>j. P ! b ! j ! 0 * real_of_int (seg ! b ! j) * (1 - zeros ! b ! j))"
  have nn: "0 \<le> t i" if i: "i < L" for i
  proof -
    have "gate_slice P ! b ! i = 0 \<or> gate_slice P ! b ! i = 1"
      by (rule binary2_entry[OF gate_slice_shape[OF assms(1)] assms(4,6) i])
    then have "P ! b ! i ! 0 = 0 \<or> P ! b ! i ! 0 = 1"
      by (simp add: gate_slice_nth[OF assms(1,6) i])
    with binary2_entry[OF assms(2,3,6) i]
      binary2_entry[OF zs structural_binary[OF assms(5)] assms(6) i]
    show ?thesis by (auto simp: t_def)
  qed
  have "t j \<le> sum_list (map t [0..<L])"
    by (rule member_le_sum_list) (use nn assms(7) in auto)
  moreover have "t j = 1"
    using assms(8,9,10) by (simp add: t_def)
  ultimately show ?thesis
    using pooling_sum_nth[OF assms(1,2) zs assms(6)] by (simp add: t_def)
qed

lemma pooling_sum_example:
  "pooling_sum [[[0, 1], [0, 1], [0, 1]]] [[1, 1, 1]] [[1, 0, 1]] = [0]"
  by code_simp

text \<open>
  C4, as the source has it. When \<open>forward\<close> returns, for every masking offset: an
  example whose pooling sum of line 253 is 0 has the divisor of line 255 replaced by 1,
  and its \<open>private_rep2\<close> is the all-zero vector, every entry a number; no example is
  divided by zero. With a masking offset between 0 and 1/2 (a binary gate) the pooling
  sum of an example is 0 exactly when no position has gate value 1, real-token mask 1
  and structural flag 0 at once.
\<close>

theorem private_rep2_degenerate:
  assumes "probabilities F_softmax"
    "shape3 B MAX_LENGTH 2 logits_pi" "shape3 B MAX_LENGTH 2 rand_u"
    "positive3 logits_pi" "0 < temp" "shape3 B MAX_LENGTH D hidden_embeddings"
    "shape2 B MAX_LENGTH segments_tensor" "binary2 segments_tensor"
    "SharedPart_forward F_softmax MAX_LENGTH temp masking rand_u logits_pi hidden_embeddings
       input_embedding mask_embedding segments_tensor = Inr v"
    "b < B"
  shows "\<exists>P zeros. P = gate_P F_softmax logits_pi temp masking rand_u
    \<and> structural_zeros MAX_LENGTH segments_tensor = Inr zeros
    \<and> (pooling_sum P segments_tensor zeros ! b = 0 \<longrightarrow>
          pooling_denominator P segments_tensor zeros ! b = 1
        \<and> pooled_private v ! b = replicate D (Some 0))
    \<and> (0 \<le> masking \<and> masking \<le> 1 / 2 \<longrightarrow>
          ((\<forall>j<MAX_LENGTH. \<not> (P ! b ! j ! 0 = 1 \<and> segments_tensor ! b ! j = 1
                                \<and> zeros ! b ! j = 0))
             \<longleftrightarrow> pooling_sum P segments_tensor zeros ! b = 0))
    \<and> (\<forall>i<B. pooling_denominator P segments_tensor zeros ! i \<noteq> 0)"
proof -
  define P where "P = gate_P F_softmax logits_pi temp masking rand_u"
  from forward_values[OF assms(9)] obtain zeros where
    z: "structural_zeros MAX_LENGTH segments_tensor = Inr zeros"
    and pv: "pooled_private v = private_rep2 P hidden_embeddings segments_tensor zeros"
    by (auto simp: P_def)
  have sh: "shape3 B MAX_LENGTH 2 P"
    unfolding P_def by (rule gate_P_shape[OF assms(1,2,3)])
  have lb: "length segments_tensor = B"
    using assms(7) by (simp add: shape2_iff)
  have zs: "shape2 B MAX_LENGTH zeros"
    using structural_shape[OF z] lb by simp
  have sign: "(\<forall>j<MAX_LENGTH. 0 \<le> P ! b ! j ! 0) \<or> (\<forall>j<MAX_LENGTH. P ! b ! j ! 0 \<le> 0)"
    using gate_P_sign[OF assms(1,2,3), of temp masking] assms(10) unfolding P_def by blast
  have one: "pooling_denominator P segments_tensor zeros ! b = 1
        \<and> pooled_private v ! b = replicate D (Some 0)"
    if "pooling_sum P segments_tensor zeros ! b = 0"
    using private_rep2_zero_sum[OF sh assms(6,7,8) z assms(10) sign that] pv by simp
  have two: "(\<forall>j<MAX_LENGTH. \<not> (P ! b ! j ! 0 = 1 \<and> segments_tensor ! b ! j = 1
                                \<and> zeros ! b ! j = 0))
             \<longleftrightarrow> pooling_sum P segments_tensor zeros ! b = 0"
    if m: "0 \<le> masking" "masking \<le> 1 / 2"
  proof -
    have "binary3 P"
      unfolding P_def gate_P_eq_Ph by (rule gate_Ph_binary[OF assms(1,2,3) m])
    then have bin: "binary2 (gate_slice P)"
      by (rule gate_slice_binary[OF sh])
    show ?thesis
      using private_rep2_binary_gate[OF sh assms(6,7,8) bin z assms(10)]
        pooling_sum_gated[OF sh assms(7,8) bin z assms(10)]
      by blast
  qed
  have three: "\<forall>i<B. pooling_denominator P segments_tensor zeros ! i \<noteq> 0"
    using pooling_denominator_nth(2)[OF sh assms(7) zs] by blast
  from z one two three show ?thesis
    unfolding P_def by blast
qed

theorem private_rep2_degenerate_witness:
  "\<exists>v. SharedPart_forward softmax 3 1 (1 / 10)
          [[[1 / 2, 1 / 2], [1 / 2, 1 / 2], [1 / 2, 1 / 2]]]
          [[[1 / 4, 3 / 4], [1 / 4, 3 / 4], [1 / 4, 3 / 4]]] [[[1], [2], [3]]] [[[5], [6], [7]]] [9]
          [[1, 1, 1]] = Inr v
       \<and> pooled_private v ! 0 = [Some 0]"
proof -
  obtain v where v: "SharedPart_forward softmax 3 1 (1 / 10)
          [[[1 / 2, 1 / 2], [1 / 2, 1 / 2], [1 / 2, 1 / 2]]]
          [[[1 / 4, 3 / 4], [1 / 4, 3 / 4], [1 / 4, 3 / 4]]] [[[1], [2], [3]]] [[[5], [6], [7]]] [9]
          [[1, 1, 1]] = Inr v"
    by (simp add: SharedPart_forward_def Let_def zeros_example3)
  have h: "shape3 1 3 2 [[[1 / 4 :: real, 3 / 4], [1 / 4, 3 / 4], [1 / 4, 3 / 4]]]"
    "shape3 1 3 2 [[[1 / 2 :: real, 1 / 2], [1 / 2, 1 / 2], [1 / 2, 1 / 2]]]"
    "positive3 [[[1 / 4, 3 / 4], [1 / 4, 3 / 4], [1 / 4, 3 / 4]]]" "0 < (1::real)"
    "shape3 1 3 1 [[[1::real], [2], [3]]]"
    "shape2 1 3 [[1::int, 1, 1]]" "binary2 [[1::int, 1, 1]]"
    by (simp_all add: shape3_def shape2_def positive3_def binary2_def)
  from private_rep2_degenerate[OF softmax_probabilities h v, of 0]
  have "pooling_sum [[[0, 1], [0, 1], [0, 1]]] [[1, 1, 1]] [[1, 0, 1]] ! 0 = 0
      \<longrightarrow> pooled_private v ! 0 = replicate 1 (Some 0)"
    by (simp add: gate_example3_low zeros_example3)
  then have "pooled_private v ! 0 = [Some 0]"
    by (simp add: pooling_sum_example)
  with v show ?thesis by blast
qed

text \<open>
  With the masking offset 4/5 the gate takes the values -1 and 0. In the example below no
  position has gate value 1, yet the pooling sum is -1, not 0: the divisor is not
  replaced and \<open>private_rep2\<close> is the hidden vector of the one real non-structural
  position, not the zero vector.
\<close>

theorem private_rep2_degenerate_counterexample:
  "gate_slice (gate_P softmax [[[1 / 4, 3 / 4], [1 / 4, 3 / 4], [1 / 4, 3 / 4]]] 1 (4 / 5)
       [[[1 / 2, 1 / 2], [1 / 2, 1 / 2], [1 / 2, 1 / 2]]]) = [[- 1, - 1, - 1]]
   \<and> map_sum id pooled_private
        (SharedPart_forward softmax 3 1 (4 / 5)
           [[[1 / 2, 1 / 2], [1 / 2, 1 / 2], [1 / 2, 1 / 2]]]
           [[[1 / 4, 3 / 4], [1 / 4, 3 / 4], [1 / 4, 3 / 4]]] [[[1], [2], [3]]] [[[5], [6], [7]]]
           [9] [[1, 1, 1]])
      = Inr [[Some 2]]"
proof -
  have "private_rep2 [[[- 1, 0], [- 1, 0], [- 1, 0]]] [[[1], [2], [3]]] [[1, 1, 1]] [[1, 0, 1]]
      = [[Some 2]]"
    by code_simp
  moreover have "gate_slice [[[- 1 :: real, 0], [- 1, 0], [- 1, 0]]] = [[- 1, - 1, - 1]]"
    by code_simp
  ultimately show ?thesis
    by (simp add: SharedPart_forward_def Let_def zeros_example3 gate_example3_high)
qed

subsection \<open>The mask percentage\<close>

lemma mask_perc_range:
  assumes "shape3 B MAX_LENGTH 2 P" "shape2 B MAX_LENGTH segments_tensor"
    "binary2 segments_tensor" "binary2 (gate_slice P)"
    "structural_zeros MAX_LENGTH segments_tensor = Inr zeros" "b < B"
    "\<exists>j<MAX_LENGTH. segments_tensor ! b ! j = 1 \<and> zeros ! b ! j = 0"
  shows "\<exists>v. mask_perc P segments_tensor zeros ! b = Some v \<and> 0 \<le> v \<and> v \<le> 1"
proof -
  have lb: "length segments_tensor = B"
    using assms(2) by (simp add: shape2_iff)
  have zs: "shape2 B MAX_LENGTH zeros"
    using structural_shape[OF assms(5)] lb by simp
  define num where "num = (\<lambda>j. P ! b ! j ! 0 * real_of_int (segments_tensor ! b ! j)
      * (1 - zeros ! b ! j))"
  define den where "den = (\<lambda>j. real_of_int (segments_tensor ! b ! j) * (1 - zeros ! b ! j))"
  have g: "shape2 B MAX_LENGTH (as_real segments_tensor)" "shape2 B MAX_LENGTH (one_minus zeros)"
    using assms(2) zs by (simp_all add: as_real_shape shape2_one_minus)
  have bounds: "0 \<le> num j \<and> num j \<le> den j \<and> 0 \<le> den j" if j: "j < MAX_LENGTH" for j
  proof -
    have "gate_slice P ! b ! j = 0 \<or> gate_slice P ! b ! j = 1"
      by (rule binary2_entry[OF gate_slice_shape[OF assms(1)] assms(4,6) j])
    then have "P ! b ! j ! 0 = 0 \<or> P ! b ! j ! 0 = 1"
      by (simp add: gate_slice_nth[OF assms(1,6) j])
    moreover have "segments_tensor ! b ! j = 0 \<or> segments_tensor ! b ! j = 1"
      by (rule binary2_entry[OF assms(2,3,6) j])
    moreover have "zeros ! b ! j = 0 \<or> zeros ! b ! j = 1"
      by (rule binary2_entry[OF zs structural_binary[OF assms(5)] assms(6) j])
    ultimately show ?thesis
      by (auto simp: num_def den_def)
  qed
  have n: "sum_dim1_mat (mul2 (mul2 (gate_slice P) (as_real segments_tensor)) (one_minus zeros)) ! b
      = sum_list (map num [0..<MAX_LENGTH])"
    using pooling_sum_nth[OF assms(1,2) zs assms(6)] by (simp add: pooling_sum_def num_def)
  have "sum_dim1_mat (mul2 (as_real segments_tensor) (one_minus zeros)) ! b
      = sum_list (map (\<lambda>j. mul2 (as_real segments_tensor) (one_minus zeros) ! b ! j)
          [0..<MAX_LENGTH])"
    by (rule sum_dim1_mat_nth[OF mul2_shape[OF g] assms(6)])
  also have "\<dots> = sum_list (map den [0..<MAX_LENGTH])"
    by (rule sum_list_cong_upt)
      (simp add: den_def mul2_nth[OF g assms(6)] as_real_nth[OF assms(2,6)]
        one_minus_entry[OF zs assms(6)])
  finally have d: "sum_dim1_mat (mul2 (as_real segments_tensor) (one_minus zeros)) ! b
      = sum_list (map den [0..<MAX_LENGTH])" .
  have n0: "0 \<le> sum_list (map num [0..<MAX_LENGTH])"
    by (rule sum_list_nonneg) (use bounds in auto)
  have nd: "sum_list (map num [0..<MAX_LENGTH]) \<le> sum_list (map den [0..<MAX_LENGTH])"
    by (rule sum_list_mono) (use bounds in auto)
  from assms(7) obtain j where j: "j < MAX_LENGTH" "den j = 1"
    by (auto simp: den_def)
  have "den j \<le> sum_list (map den [0..<MAX_LENGTH])"
    by (rule member_le_sum_list) (use bounds j(1) in auto)
  with j have dpos: "0 < sum_list (map den [0..<MAX_LENGTH])" by simp
  have len: "length (sum_dim1_mat (mul2 (mul2 (gate_slice P) (as_real segments_tensor))
                 (one_minus zeros))) = B"
    "length (sum_dim1_mat (mul2 (as_real segments_tensor) (one_minus zeros))) = B"
    using g gate_slice_shape[OF assms(1)]
    by (simp_all add: sum_dim1_mat_def mul2_def shape2_iff)
  have "mask_perc P segments_tensor zeros ! b
      = tdiv (sum_list (map num [0..<MAX_LENGTH])) (sum_list (map den [0..<MAX_LENGTH]))"
    using len assms(6) by (simp add: mask_perc_def n d)
  with n0 nd dpos show ?thesis
    by (simp add: tdiv_def)
qed

lemma mask_perc_half:
  "mask_perc [[[1, 0], [1, 0], [0, 1], [1, 0]]] [[1, 1, 1, 1]] [[1, 0, 0, 1]] = [Some (1 / 2)]"
  by code_simp

text \<open>
  C5, as the source has it. For logits and a uniform draw of shape \<open>B x MAX_LENGTH x 2\<close>,
  positive logits, a positive temperature, a softmax that returns probabilities, a
  masking offset between 0 and 1/2 (so that the gate is binary) and a binary segment
  mask: when \<open>forward\<close> returns, the mask percentage of line 268 is a number between 0
  and 1 for every example that has a real position other than position 0 and position
  (sum of the segment mask - 1).
\<close>

theorem mask_perc_bounds:
  assumes "probabilities F_softmax"
    "shape3 B MAX_LENGTH 2 logits_pi" "shape3 B MAX_LENGTH 2 rand_u"
    "positive3 logits_pi" "0 < temp" "0 \<le> masking" "masking \<le> 1 / 2"
    "shape2 B MAX_LENGTH segments_tensor" "binary2 segments_tensor"
    "SharedPart_forward F_softmax MAX_LENGTH temp masking rand_u logits_pi hidden_embeddings
       input_embedding mask_embedding segments_tensor = Inr v"
    "b < B"
    "\<exists>j<MAX_LENGTH. segments_tensor ! b ! j = 1 \<and> j \<noteq> 0
        \<and> j \<noteq> nat (sum_list (segments_tensor ! b) - 1)"
  shows "\<exists>p. mask_percentage v ! b = Some p \<and> 0 \<le> p \<and> p \<le> 1"
proof -
  define P where "P = gate_P F_softmax logits_pi temp masking rand_u"
  from forward_values[OF assms(10)] obtain zeros where
    z: "structural_zeros MAX_LENGTH segments_tensor = Inr zeros"
    and m: "mask_percentage v = mask_perc P segments_tensor zeros"
    by (auto simp: P_def)
  have sh: "shape3 B MAX_LENGTH 2 P"
    unfolding P_def by (rule gate_P_shape[OF assms(1,2,3)])
  have "binary3 P"
    unfolding P_def gate_P_eq_Ph by (rule gate_Ph_binary[OF assms(1,2,3,6,7)])
  then have bin: "binary2 (gate_slice P)"
    by (rule gate_slice_binary[OF sh])
  have lb: "b < length segments_tensor"
    using assms(8,11) by (simp add: shape2_iff)
  from assms(12) obtain j where j: "j < MAX_LENGTH" "segments_tensor ! b ! j = 1"
    "j \<noteq> 0" "j \<noteq> nat (sum_list (segments_tensor ! b) - 1)" by blast
  with structural_entry[OF z lb j(1)]
  have "\<exists>j<MAX_LENGTH. segments_tensor ! b ! j = 1 \<and> zeros ! b ! j = 0" by auto
  from mask_perc_range[OF sh assms(8,9) bin z assms(11) this] m show ?thesis by simp
qed

theorem mask_perc_bounds_witness:
  "\<exists>v. SharedPart_forward softmax 4 1 (1 / 10)
          [[[1 / 2, 1 / 2], [1 / 2, 1 / 2], [1 / 2, 1 / 2], [1 / 2, 1 / 2]]]
          [[[3 / 4, 1 / 4], [3 / 4, 1 / 4], [1 / 4, 3 / 4], [3 / 4, 1 / 4]]]
          [[[1], [2], [3], [4]]] [[[5], [6], [7], [8]]] [9] [[1, 1, 1, 1]] = Inr v
       \<and> mask_percentage v = [Some (1 / 2)]"
proof -
  obtain v where v: "SharedPart_forward softmax 4 1 (1 / 10)
          [[[1 / 2, 1 / 2], [1 / 2, 1 / 2], [1 / 2, 1 / 2], [1 / 2, 1 / 2]]]
          [[[3 / 4, 1 / 4], [3 / 4, 1 / 4], [1 / 4, 3 / 4], [3 / 4, 1 / 4]]]
          [[[1], [2], [3], [4]]] [[[5], [6], [7], [8]]] [9] [[1, 1, 1, 1]] = Inr v"
    by (simp add: SharedPart_forward_def Let_def zeros_example4)
  have h: "shape3 1 4 2 [[[3 / 4 :: real, 1 / 4], [3 / 4, 1 / 4], [1 / 4, 3 / 4], [3 / 4, 1 / 4]]]"
    "shape3 1 4 2 [[[1 / 2 :: real, 1 / 2], [1 / 2, 1 / 2], [1 / 2, 1 / 2], [1 / 2, 1 / 2]]]"
    "positive3 [[[3 / 4, 1 / 4], [3 / 4, 1 / 4], [1 / 4, 3 / 4], [3 / 4, 1 / 4]]]" "0 < (1::real)"
    "0 \<le> (1 / 10 :: real)" "(1 / 10 :: real) \<le> 1 / 2"
    "shape2 1 4 [[1::int, 1, 1, 1]]" "binary2 [[1::int, 1, 1, 1]]"
    by (simp_all add: shape3_def shape2_def positive3_def binary2_def)
  have e: "\<exists>j<4. [[1::int, 1, 1, 1]] ! 0 ! j = 1 \<and> j \<noteq> 0
      \<and> j \<noteq> nat (sum_list ([[1::int, 1, 1, 1]] ! 0) - 1)"
    by (intro exI[of _ 1]) simp
  from mask_perc_bounds[OF softmax_probabilities h v _ e] obtain p where
    "mask_percentage v ! 0 = Some p" "0 \<le> p" "p \<le> 1" by auto
  moreover from forward_values[OF v] have "mask_percentage v = [Some (1 / 2)]"
    by (simp add: zeros_example4 gate_example4 mask_perc_half)
  ultimately show ?thesis using v by blast
qed

text \<open>
  An example whose segment mask sums to exactly 2 has only its two structural positions:
  both sums of line 268 are 0 and the quotient is 0/0. With the masking offset 4/5 the
  gate takes the value -1 (see the gate above) and the mask percentage is negative.
\<close>

theorem mask_perc_bounds_counterexample:
  "map_sum id mask_percentage
     (SharedPart_forward softmax 3 1 (1 / 10)
        [[[1 / 2, 1 / 2], [1 / 2, 1 / 2], [1 / 2, 1 / 2]]]
        [[[1 / 4, 3 / 4], [1 / 4, 3 / 4], [1 / 4, 3 / 4]]] [[[1], [2], [3]]] [[[5], [6], [7]]] [9]
        [[1, 1, 0]])
     = Inr [None]
   \<and> map_sum id mask_percentage
     (SharedPart_forward softmax 3 1 (4 / 5)
        [[[1 / 2, 1 / 2], [1 / 2, 1 / 2], [1 / 2, 1 / 2]]]
        [[[1 / 4, 3 / 4], [1 / 4, 3 / 4], [1 / 4, 3 / 4]]] [[[1], [2], [3]]] [[[5], [6], [7]]] [9]
        [[1, 1, 1]])
     = Inr [Some (- 1)]"
proof -
  have "mask_perc [[[0, 1], [0, 1], [0, 1]]] [[1, 1, 0]] [[1, 1, 0]] = [None]"
    by code_simp
  moreover have "mask_perc [[[- 1, 0], [- 1, 0], [- 1, 0]]] [[1, 1, 1]] [[1, 0, 1]] = [Some (- 1)]"
    by code_simp
  ultimately show ?thesis
    by (simp add: SharedPart_forward_def Let_def zeros_example2 zeros_example3
        gate_example3_low gate_example3_high)
qed

end
